theory Spec2Isabelle
  imports Main "HOL-Library.Sublist" "HOL-Library.Char_ord" "HOL-Library.List_Lexorder"
begin

section \<open>Text and lines\<close>

text \<open>
  A Python \<open>str\<close> is a \<open>string\<close>. A line read from a text file keeps its terminating
  newline; only the last line of a file may lack one. \<open>line.startswith(kw)\<close> is
  \<open>prefix kw line\<close>.
\<close>

definition startswith :: "string \<Rightarrow> string \<Rightarrow> bool" where
  "startswith line kw = prefix kw line"

text \<open>
  \<open>re.search(r'^-- *INCLUDE', line)\<close>: without the MULTILINE flag the anchor matches at
  the start of the string only, so the line is \<open>--\<close>, any number of spaces, \<open>INCLUDE\<close>.
  The word does not begin with a space, so the spaces matched are all the leading ones.
\<close>

definition commented_include :: "string \<Rightarrow> bool" where
  "commented_include line =
     (prefix ''--'' line \<and> prefix ''INCLUDE'' (dropWhile (\<lambda>c. c = CHR '' '') (drop 2 line)))"

section \<open>The Deck Rewriter: \<open>update_data_file\<close>\<close>

datatype level = DEBUG | INFO | ERROR

text \<open>
  The local variables of \<open>update_data_file\<close>: the seven flags, the list \<open>new_data\<close>, the
  lines of the open file not read yet (\<open>data_file\<close>), and the calls made to the logger.
\<close>

record scan =
  in_solution :: bool
  in_schedule :: bool
  restart_updated :: bool
  found_restart :: bool
  found_skiprest :: bool
  found_include :: bool
  found_commented_include :: bool
  new_data :: "string list"
  data_file :: "string list"
  logged :: "(level \<times> string) list"

text \<open>\<open>data_file.readline()\<close>: the next line, or the empty string at the end of the file.\<close>

definition readline :: "string list \<Rightarrow> string \<times> string list" where
  "readline f = (case f of [] \<Rightarrow> ('''', []) | l # ls \<Rightarrow> (l, ls))"

text \<open>\<open>' {basename:s} {id:s} /\n'.format(basename=basename, id=id)\<close>\<close>

definition restart_line :: "string \<Rightarrow> string \<Rightarrow> string" where
  "restart_line basename ident = '' '' @ basename @ '' '' @ ident @ '' /\<newline>''"

text \<open>What each rule sends to the logger (\<open>logger.debug\<close>, \<open>logger.info\<close>).\<close>

definition log_add_restart :: "string \<Rightarrow> (level \<times> string) list" where
  "log_add_restart ident =
     [(DEBUG, ''Adding new RESTART keyword.''),
      (INFO, ''New RESTART keyword added (report number '' @ ident @ '').'')]"

definition log_update_restart :: "string \<Rightarrow> (level \<times> string) list" where
  "log_update_restart ident =
     [(DEBUG, ''Updating existing RESTART clause.''),
      (INFO, ''Updated RESTART (report number '' @ ident @ '')'')]"

definition log_comment_include :: "(level \<times> string) list" where
  "log_comment_include = [(DEBUG, ''Commenting INCLUDE in SOLUTION section.'')]"

definition log_add_skiprest :: "(level \<times> string) list" where
  "log_add_skiprest = [(DEBUG, ''Adding SKIPREST to SCHEDULE section.'')]"

text \<open>Lines 74 to 96: the chain of \<open>if\<close>/\<open>elif\<close> on the current line.\<close>

definition check_keywords :: "string \<Rightarrow> scan \<Rightarrow> scan" where
  "check_keywords line s =
     (if startswith line ''SOLUTION'' then
        s\<lparr>in_solution := True, restart_updated := False, found_restart := False,
          found_include := False, found_commented_include := False\<rparr>
      else if startswith line ''SUMMARY'' then
        s\<lparr>in_solution := False\<rparr>
      else if startswith line ''SCHEDULE'' then
        s\<lparr>in_schedule := True, in_solution := False, found_skiprest := False,
          found_include := False, found_commented_include := False\<rparr>
      else if startswith line ''RESTART'' then
        s\<lparr>found_restart := True\<rparr>
      else if startswith line ''INCLUDE'' then
        s\<lparr>found_include := True\<rparr>
      else if commented_include line then
        s\<lparr>found_commented_include := True\<rparr>
      else s)"

text \<open>Lines 99 to 108: add a RESTART block when none was seen in this section.\<close>

definition add_restart :: "string \<Rightarrow> string \<Rightarrow> scan \<Rightarrow> scan" where
  "add_restart basename ident s =
     (if in_solution s \<and> (found_include s \<or> found_commented_include s) \<and> \<not> found_restart s then
        s\<lparr>logged := logged s @ log_add_restart ident,
          new_data := new_data s @ [''RESTART\<newline>'', restart_line basename ident, ''\<newline>''],
          found_restart := True, restart_updated := True\<rparr>
      else s)"

text \<open>
  Lines 111 to 117: the RESTART line is appended, the next line is read from the file
  and dropped, and the current line becomes the generated one.
\<close>

definition update_restart :: "string \<Rightarrow> string \<Rightarrow> string \<times> scan \<Rightarrow> string \<times> scan" where
  "update_restart basename ident ls =
     (case ls of (line, s) \<Rightarrow>
        if found_restart s \<and> \<not> restart_updated s then
          (case readline (data_file s) of (dropped, f) \<Rightarrow>
             (restart_line basename ident,
              s\<lparr>logged := logged s @ log_update_restart ident,
                new_data := new_data s @ [line], data_file := f, restart_updated := True\<rparr>))
        else (line, s))"

text \<open>
  Lines 120 to 128: the current line is commented and appended, the next line is read
  from the file and becomes, commented, the current line.
\<close>

definition comment_include :: "string \<times> scan \<Rightarrow> string \<times> scan" where
  "comment_include ls =
     (case ls of (line, s) \<Rightarrow>
        if in_solution s \<and> found_include s \<and> \<not> found_commented_include s then
          (case readline (data_file s) of (nxt, f) \<Rightarrow>
             (''--'' @ nxt,
              s\<lparr>logged := logged s @ log_comment_include,
                new_data := new_data s @ [''--'' @ line], data_file := f,
                found_commented_include := True\<rparr>))
        else (line, s))"

text \<open>Lines 131 to 134: one list element holding the SKIPREST line and a blank line.\<close>

definition add_skiprest :: "scan \<Rightarrow> scan" where
  "add_skiprest s =
     (if in_schedule s \<and> found_include s \<and> \<not> found_skiprest s then
        s\<lparr>logged := logged s @ log_add_skiprest,
          new_data := new_data s @ [''SKIPREST\<newline>\<newline>''], found_skiprest := True\<rparr>
      else s)"

text \<open>One iteration of the \<open>for\<close> loop, lines 73 to 136, on the line just taken from the file.\<close>

definition loop_body :: "string \<Rightarrow> string \<Rightarrow> string \<Rightarrow> scan \<Rightarrow> scan" where
  "loop_body basename ident line s =
     (case comment_include (update_restart basename ident
             (line, add_restart basename ident (check_keywords line s))) of
        (line', s') \<Rightarrow>
          (let s'' = add_skiprest s' in s''\<lparr>new_data := new_data s'' @ [line']\<rparr>))"

lemma length_readline: "length (snd (readline f)) \<le> length f"
  by (simp add: readline_def split: list.split)

lemma data_file_check_keywords [simp]: "data_file (check_keywords line s) = data_file s"
  by (simp add: check_keywords_def)

lemma data_file_add_restart [simp]: "data_file (add_restart basename ident s) = data_file s"
  by (simp add: add_restart_def)

lemma data_file_add_skiprest [simp]: "data_file (add_skiprest s) = data_file s"
  by (simp add: add_skiprest_def)

lemma length_update_restart:
  "length (data_file (snd (update_restart basename ident (line, s)))) \<le> length (data_file s)"
  using length_readline [of "data_file s"]
  by (auto simp: update_restart_def split: prod.split)

lemma length_comment_include:
  "length (data_file (snd (comment_include (line, s)))) \<le> length (data_file s)"
  using length_readline [of "data_file s"]
  by (auto simp: comment_include_def split: prod.split)

lemma length_data_file_loop_body:
  "length (data_file (loop_body basename ident line s)) \<le> length (data_file s)"
proof -
  obtain l1 s1 where u: "update_restart basename ident
      (line, add_restart basename ident (check_keywords line s)) = (l1, s1)"
    by (cases "update_restart basename ident (line, add_restart basename ident (check_keywords line s))")
  obtain l2 s2 where c: "comment_include (l1, s1) = (l2, s2)"
    by (cases "comment_include (l1, s1)")
  have "length (data_file s1) \<le> length (data_file s)"
    using length_update_restart [of basename ident line "add_restart basename ident (check_keywords line s)"] u
    by simp
  moreover have "length (data_file s2) \<le> length (data_file s1)"
    using length_comment_include [of l1 s1] c by simp
  moreover have "data_file (loop_body basename ident line s) = data_file s2"
    by (simp add: loop_body_def u c Let_def)
  ultimately show ?thesis by simp
qed

text \<open>The \<open>for\<close> loop: it takes the next unread line until the file is exhausted.\<close>

function loop :: "string \<Rightarrow> string \<Rightarrow> scan \<Rightarrow> scan" where
  "loop basename ident s =
     (case data_file s of
        [] \<Rightarrow> s
      | line # rest \<Rightarrow> loop basename ident (loop_body basename ident line (s\<lparr>data_file := rest\<rparr>)))"
  by pat_completeness auto
termination
proof (relation "measure (\<lambda>(basename, ident, s). length (data_file s))")
  show "wf (measure (\<lambda>(basename, ident, s). length (data_file s)))" by simp
next
  fix basename ident :: string and s :: scan and line rest
  assume "data_file s = line # rest"
  moreover have "length (data_file (loop_body basename ident line (s\<lparr>data_file := rest\<rparr>))) \<le> length rest"
    using length_data_file_loop_body [of basename ident line "s\<lparr>data_file := rest\<rparr>"] by simp
  ultimately show "((basename, ident, loop_body basename ident line (s\<lparr>data_file := rest\<rparr>)), (basename, ident, s))
      \<in> measure (\<lambda>(basename, ident, s). length (data_file s))"
    by simp
qed

declare loop.simps [simp del]

text \<open>Lines 58 to 69: the variables as the loop finds them, on the lines of the opened file.\<close>

definition initial :: "string list \<Rightarrow> scan" where
  "initial file_lines =
     \<lparr>in_solution = False, in_schedule = False, restart_updated = False, found_restart = False,
      found_skiprest = False, found_include = False, found_commented_include = False,
      new_data = [], data_file = file_lines, logged = []\<rparr>"

text \<open>The body of the \<open>with\<close> block and the \<open>return\<close>, on the lines the file object yields.\<close>

definition rewrite_lines :: "string \<Rightarrow> string \<Rightarrow> string list \<Rightarrow> string list" where
  "rewrite_lines basename ident file_lines = new_data (loop basename ident (initial file_lines))"

text \<open>
  The states the loop is in when it is about to take a line from the file (or has
  found the file exhausted), in the order it visits them, from \<open>s\<close> on.
\<close>

function visited :: "string \<Rightarrow> string \<Rightarrow> scan \<Rightarrow> scan list" where
  "visited basename ident s =
     s # (case data_file s of
            [] \<Rightarrow> []
          | line # rest \<Rightarrow> visited basename ident (loop_body basename ident line (s\<lparr>data_file := rest\<rparr>)))"
  by pat_completeness auto
termination
proof (relation "measure (\<lambda>(basename, ident, s). length (data_file s))")
  show "wf (measure (\<lambda>(basename, ident, s). length (data_file s)))" by simp
next
  fix basename ident :: string and s :: scan and line rest
  assume "data_file s = line # rest"
  moreover have "length (data_file (loop_body basename ident line (s\<lparr>data_file := rest\<rparr>))) \<le> length rest"
    using length_data_file_loop_body [of basename ident line "s\<lparr>data_file := rest\<rparr>"] by simp
  ultimately show "((basename, ident, loop_body basename ident line (s\<lparr>data_file := rest\<rparr>)), (basename, ident, s))
      \<in> measure (\<lambda>(basename, ident, s). length (data_file s))"
    by simp
qed

declare visited.simps [simp del]

text \<open>What was sent to the logger during the rewriting of the given lines.\<close>

definition rewrite_log :: "string \<Rightarrow> string \<Rightarrow> string list \<Rightarrow> (level \<times> string) list" where
  "rewrite_log basename ident file_lines = logged (loop basename ident (initial file_lines))"

subsection \<open>Notions used to state the properties\<close>

text \<open>The branch of the keyword chain of lines 74 to 96 that a line takes.\<close>

datatype keyword = SOLUTION | SUMMARY | SCHEDULE | RESTART | INCLUDE | COMMENTED | OTHER

definition classify :: "string \<Rightarrow> keyword" where
  "classify line =
     (if startswith line ''SOLUTION'' then SOLUTION
      else if startswith line ''SUMMARY'' then SUMMARY
      else if startswith line ''SCHEDULE'' then SCHEDULE
      else if startswith line ''RESTART'' then RESTART
      else if startswith line ''INCLUDE'' then INCLUDE
      else if commented_include line then COMMENTED
      else OTHER)"

text \<open>
  What holds of the flags between two iterations of the loop, in every run from the
  initial state: a RESTART that was seen has been written, and an INCLUDE that was seen
  has been dealt with in the section it stands in.
\<close>

definition inv :: "scan \<Rightarrow> bool" where
  "inv s \<longleftrightarrow>
     (found_restart s = restart_updated s) \<and>
     (in_solution s \<and> found_include s \<longrightarrow> found_commented_include s) \<and>
     (in_schedule s \<and> found_include s \<longrightarrow> found_skiprest s) \<and>
     (in_solution s \<and> (found_include s \<or> found_commented_include s) \<longrightarrow> found_restart s)"

text \<open>
  How often the log records that a restart parameter line was written (by the rule that
  adds a RESTART block or by the rule that updates one), and that a SKIPREST block was added.
\<close>

definition restart_events :: "(level \<times> string) list \<Rightarrow> nat" where
  "restart_events lg =
     length (filter (\<lambda>m. m = (DEBUG, ''Adding new RESTART keyword.'')
                        \<or> m = (DEBUG, ''Updating existing RESTART clause.'')) lg)"

definition skiprest_events :: "(level \<times> string) list \<Rightarrow> nat" where
  "skiprest_events lg =
     length (filter (\<lambda>m. m = (DEBUG, ''Adding SKIPREST to SCHEDULE section.'')) lg)"



text \<open>The first message of the rule that adds a RESTART block.\<close>

definition added_restart :: "level \<times> string" where
  "added_restart = (DEBUG, ''Adding new RESTART keyword.'')"

text \<open>
  The iterations of the loop over a deck: each line that the \<open>for\<close> statement of
  line 72 takes, with the state at the top of the loop body, the lines after it still
  in the file.
\<close>

definition taken :: "string \<Rightarrow> string \<Rightarrow> scan \<Rightarrow> (string \<times> scan) list" where
  "taken basename ident s0 =
     concat (map (\<lambda>s. case data_file s of [] \<Rightarrow> [] | line # rest \<Rightarrow> [(line, s\<lparr>data_file := rest\<rparr>)])
                 (visited basename ident s0))"

text \<open>
  Whether, in the iteration that takes \<open>line\<close> in state \<open>s\<close>, the condition of each
  of the four rules holds where the body tests it: that of line 99 after the keyword
  chain, that of line 111 after the rule of line 99, that of line 120 after the rule of
  line 111, and that of line 131 after the rule of line 120.
\<close>

definition inserts_restart :: "string \<Rightarrow> scan \<Rightarrow> bool" where
  "inserts_restart line s =
     (let k = check_keywords line s in
      in_solution k \<and> (found_include k \<or> found_commented_include k) \<and> \<not> found_restart k)"

definition updates_restart :: "string \<Rightarrow> string \<Rightarrow> string \<Rightarrow> scan \<Rightarrow> bool" where
  "updates_restart basename ident line s =
     (let a = add_restart basename ident (check_keywords line s) in
      found_restart a \<and> \<not> restart_updated a)"

definition comments_include :: "string \<Rightarrow> string \<Rightarrow> string \<Rightarrow> scan \<Rightarrow> bool" where
  "comments_include basename ident line s =
     (let u = snd (update_restart basename ident
                     (line, add_restart basename ident (check_keywords line s))) in
      in_solution u \<and> found_include u \<and> \<not> found_commented_include u)"

definition inserts_skiprest :: "string \<Rightarrow> string \<Rightarrow> string \<Rightarrow> scan \<Rightarrow> bool" where
  "inserts_skiprest basename ident line s =
     (let c = snd (comment_include (update_restart basename ident
                     (line, add_restart basename ident (check_keywords line s)))) in
      in_schedule c \<and> found_include c \<and> \<not> found_skiprest c)"

text \<open>
  What one iteration appends to \<open>new_data\<close>, and the lines that it reads from the file
  with \<open>readline\<close>, so that the \<open>for\<close> statement never takes them.
\<close>

definition emitted :: "string \<Rightarrow> string \<Rightarrow> string \<Rightarrow> scan \<Rightarrow> string list" where
  "emitted basename ident line s =
     drop (length (new_data s)) (new_data (loop_body basename ident line s))"

definition read_ahead :: "string \<Rightarrow> string \<Rightarrow> string \<Rightarrow> scan \<Rightarrow> string list" where
  "read_ahead basename ident line s =
     take (length (data_file s) - length (data_file (loop_body basename ident line s)))
       (data_file s)"

text \<open>
  Stages of the scan of a deck that has not been rewritten: before the first section
  keyword, in a SOLUTION section where no directive was seen yet, and after a restart
  was written and the INCLUDE of the section dealt with.
\<close>

definition outside :: "scan \<Rightarrow> bool" where
  "outside s \<longleftrightarrow> \<not> in_solution s \<and> \<not> in_schedule s \<and> \<not> found_restart s \<and> \<not> restart_updated s"

definition fresh :: "scan \<Rightarrow> bool" where
  "fresh s \<longleftrightarrow> in_solution s \<and> \<not> in_schedule s \<and> \<not> found_restart s \<and> \<not> restart_updated s \<and>
     \<not> found_include s \<and> \<not> found_commented_include s"

definition settled :: "scan \<Rightarrow> bool" where
  "settled s \<longleftrightarrow> found_restart s \<and> restart_updated s \<and>
     (in_solution s \<longrightarrow> found_commented_include s)"

section \<open>Files\<close>

text \<open>
  The world the program runs in: the text of every regular file by path, what
  \<open>glob.glob\<close> returns for a pattern, and the calls made to the logger so far, each with
  its level (which of them are shown depends on the level set from \<open>--verbose\<close>).
  Only regular files are modelled, and the platform is a POSIX one: \<open>os.path.exists p\<close>
  is \<open>files w p \<noteq> None\<close>, and writing a text leaves its newlines as they are.
\<close>

record world =
  files :: "string \<Rightarrow> string option"
  glob :: "string \<Rightarrow> string list"
  console :: "(level \<times> string) list"

datatype error = SystemExit nat | FileNotFoundError string | AttributeError

text \<open>
  \<open>open(path)\<close> reads in text mode with universal newlines: \<open>\r\n\<close> and a lone \<open>\r\<close>
  arrive as \<open>\n\<close>.
\<close>

fun universal_newlines :: "string \<Rightarrow> string" where
  "universal_newlines [] = []"
| "universal_newlines [c] = [if c = CHR 0x0D then CHR ''\<newline>'' else c]"
| "universal_newlines (c # d # cs) =
     (if c = CHR 0x0D \<and> d = CHR ''\<newline>'' then CHR ''\<newline>'' # universal_newlines cs
      else if c = CHR 0x0D then CHR ''\<newline>'' # universal_newlines (d # cs)
      else c # universal_newlines (d # cs))"

text \<open>
  Iterating over the file object (and \<open>readline\<close>) yields the text cut after each
  newline; the last piece has no newline when the text does not end with one.
\<close>

fun text_lines :: "string \<Rightarrow> string list" where
  "text_lines [] = []"
| "text_lines (c # cs) =
     (if c = CHR ''\<newline>'' then [c] # text_lines cs
      else (case text_lines cs of [] \<Rightarrow> [[c]] | l # ls \<Rightarrow> (c # l) # ls))"

definition open_text :: "world \<Rightarrow> string \<Rightarrow> error + string list" where
  "open_text w path =
     (case files w path of
        None \<Rightarrow> Inl (FileNotFoundError path)
      | Some text \<Rightarrow> Inr (text_lines (universal_newlines text)))"

text \<open>
  \<open>update_data_file(basename, id)\<close>: the deck \<open>{basename}.DATA\<close> is opened, the loop
  runs over its lines, and \<open>new_data\<close> is returned. The first component is what was sent
  to the logger.
\<close>

definition update_data_file ::
  "world \<Rightarrow> string \<Rightarrow> string \<Rightarrow> (level \<times> string) list \<times> (error + string list)" where
  "update_data_file w basename ident =
     (case open_text w (basename @ ''.DATA'') of
        Inl e \<Rightarrow> ([], Inl e)
      | Inr file_lines \<Rightarrow>
          (let s = loop basename ident (initial file_lines) in (logged s, Inr (new_data s))))"

section \<open>The Restart-Point Resolver: \<open>determine_restart_id\<close>\<close>

definition is_digit :: "char \<Rightarrow> bool" where
  "is_digit c = (CHR ''0'' \<le> c \<and> c \<le> CHR ''9'')"

definition four_digits :: "string \<Rightarrow> bool" where
  "four_digits d = (length d = 4 \<and> list_all is_digit d)"

text \<open>
  \<open>re.search(r'\.X([0-9]{4})$', x_filename)\<close> and its group 1. The end anchor matches at
  the end of the string and also just before a newline that ends the string; of the two
  places at most one can match, so the leftmost match is the one that exists.
\<close>

definition ends_x_id :: "string \<Rightarrow> bool" where
  "ends_x_id t =
     (6 \<le> length t \<and> take 2 (drop (length t - 6) t) = ''.X'' \<and>
      list_all is_digit (drop (length t - 4) t))"

definition search_x_id :: "string \<Rightarrow> string option" where
  "search_x_id x_filename =
     (if ends_x_id x_filename then Some (drop (length x_filename - 4) x_filename)
      else if x_filename \<noteq> [] \<and> last x_filename = CHR ''\<newline>'' \<and> ends_x_id (butlast x_filename)
        then Some (drop (length x_filename - 5) (butlast x_filename))
      else None)"

definition x_pattern :: "string \<Rightarrow> string" where
  "x_pattern basename = basename @ ''.X[0-9][0-9][0-9][0-9]''"

text \<open>
  Lines 20 to 53. \<open>sys.exit(1)\<close> is the error \<open>SystemExit 1\<close>; a failed search would
  raise \<open>AttributeError\<close> at \<open>.group(1)\<close>.
\<close>

definition determine_restart_id ::
  "world \<Rightarrow> string \<Rightarrow> (level \<times> string) list \<times> (error + string)" where
  "determine_restart_id w basename =
     (let xfiles = sort (glob w (x_pattern basename)) in
      if length xfiles = 0 then
        ([(ERROR, ''FATAL ERROR:\<newline>Did not find any restart file: '' @ [CHR 0x22] @ basename
                   @ ''.X0000'' @ [CHR 0x22] @ ''\<newline>exiting.'')],
         Inl (SystemExit 1))
      else
        (let x_filename = last xfiles in
         case search_x_id x_filename of
           None \<Rightarrow> ([], Inl AttributeError)
         | Some ident \<Rightarrow>
             (let l1 = [(DEBUG, ''Largest Xiiii file is: '' @ x_filename)];
                  s_filename = basename @ ''.S'' @ ident in
              if files w s_filename = None then
                (l1 @ [(ERROR, ''FATAL ERROR:\<newline>Found '' @ x_filename @ '',\<newline>but   ''
                          @ s_filename @ '' does not exist!\<newline>exiting.'')],
                 Inl (SystemExit 1))
              else
                (l1 @ [(DEBUG, ''Found corresponding Siiii file: '' @ s_filename),
                       (DEBUG, ''Next restart number is: '' @ ident)],
                 Inr ident))))"

section \<open>The script: \<open>__main__\<close>\<close>

record args =
  name :: string
  backup :: bool
  restore :: bool
  verbose :: bool

text \<open>\<open>s.endswith(t)\<close> and \<open>s.rstrip(chars)\<close>, which drops every trailing character found in \<open>chars\<close>.\<close>

definition endswith :: "string \<Rightarrow> string \<Rightarrow> bool" where
  "endswith s t = suffix t s"

definition rstrip :: "string \<Rightarrow> string \<Rightarrow> string" where
  "rstrip s chars = rev (dropWhile (\<lambda>c. c \<in> set chars) (rev s))"

definition log_to :: "(level \<times> string) list \<Rightarrow> world \<Rightarrow> world" where
  "log_to msgs w = w\<lparr>console := console w @ msgs\<rparr>"

text \<open>\<open>shutil.copyfile(src, dst)\<close> on regular files.\<close>

definition copyfile :: "string \<Rightarrow> string \<Rightarrow> world \<Rightarrow> error + world" where
  "copyfile src dst w =
     (case files w src of
        None \<Rightarrow> Inl (FileNotFoundError src)
      | Some text \<Rightarrow> Inr (w\<lparr>files := (files w)(dst \<mapsto> text)\<rparr>))"

text \<open>\<open>shutil.move(src, dst)\<close> on regular files: a rename that replaces \<open>dst\<close>.\<close>

definition move :: "string \<Rightarrow> string \<Rightarrow> world \<Rightarrow> error + world" where
  "move src dst w =
     (case files w src of
        None \<Rightarrow> Inl (FileNotFoundError src)
      | Some text \<Rightarrow> Inr (w\<lparr>files := (files w)(src := None, dst \<mapsto> text)\<rparr>))"

text \<open>\<open>open(path, 'w')\<close> and \<open>writelines\<close>: the file holds the pieces one after the other.\<close>

definition writelines :: "string \<Rightarrow> string list \<Rightarrow> world \<Rightarrow> world" where
  "writelines path pieces w = w\<lparr>files := (files w)(path \<mapsto> concat pieces)\<rparr>"

text \<open>Lines 165 to 177: the base name, and the deck restored from its backup on request.\<close>

definition basename_of :: "args \<Rightarrow> string" where
  "basename_of a = (if endswith (name a) ''.DATA'' then rstrip (name a) ''.DATA'' else name a)"

definition restore_step :: "args \<Rightarrow> world \<Rightarrow> error + world" where
  "restore_step a w =
     (let data_filename = basename_of a @ ''.DATA'' in
      if restore a then
        (let backup_filename = data_filename @ ''.BACKUP'' in
         case copyfile backup_filename data_filename w of
           Inl e \<Rightarrow> Inl e
         | Inr w' \<Rightarrow>
             Inr (log_to [(INFO, ''Restored '' @ [CHR 0x22] @ backup_filename @ [CHR 0x22] @ '' to ''
                            @ [CHR 0x22] @ data_filename @ [CHR 0x22])] w'))
      else Inr w)"

text \<open>Lines 183 to 192: the optional backup, and the new deck written.\<close>

definition write_step :: "args \<Rightarrow> string list \<Rightarrow> world \<Rightarrow> error + world" where
  "write_step a pieces w =
     (let data_filename = basename_of a @ ''.DATA'';
          moved =
            (if backup a then
               (let backup_filename = data_filename @ ''.BACKUP'' in
                case move data_filename backup_filename w of
                  Inl e \<Rightarrow> Inl e
                | Inr w' \<Rightarrow> Inr (log_to [(INFO, ''Backup created: '' @ backup_filename)] w'))
             else Inr w)
      in case moved of
           Inl e \<Rightarrow> Inl e
         | Inr w' \<Rightarrow>
             Inr (log_to [(INFO, ''Data file written: '' @ data_filename)]
                    (writelines data_filename pieces w')))"

text \<open>
  The script from line 165 on. \<open>Inl (e, w)\<close>: it stopped with the exception \<open>e\<close> and left
  the world \<open>w\<close>; \<open>Inr w\<close>: it ran to its end.
\<close>

definition main :: "args \<Rightarrow> world \<Rightarrow> error \<times> world + world" where
  "main a w =
     (case restore_step a w of
        Inl e \<Rightarrow> Inl (e, w)
      | Inr w1 \<Rightarrow>
          (case determine_restart_id w1 (basename_of a) of
             (msgs, Inl e) \<Rightarrow> Inl (e, log_to msgs w1)
           | (msgs, Inr ident) \<Rightarrow>
               (let w2 = log_to msgs w1 in
                case update_data_file w2 (basename_of a) ident of
                  (msgs', Inl e) \<Rightarrow> Inl (e, log_to msgs' w2)
                | (msgs', Inr pieces) \<Rightarrow>
                    (let w3 = log_to msgs' w2 in
                     case write_step a pieces w3 of
                       Inl e \<Rightarrow> Inl (e, w3)
                     | Inr w4 \<Rightarrow> Inr w4))))"

text \<open>How a run of the script ended, and the world it left.\<close>

definition raised :: "error \<times> world + world \<Rightarrow> error option" where
  "raised r = (case r of Inl (e, w) \<Rightarrow> Some e | Inr w \<Rightarrow> None)"

definition final_world :: "error \<times> world + world \<Rightarrow> world" where
  "final_world r = (case r of Inl (e, w) \<Rightarrow> w | Inr w \<Rightarrow> w)"

text \<open>
  Worlds for the examples: the files listed, and a \<open>glob\<close> for the patterns the script
  uses, a literal name followed by four times \<open>[0-9]\<close>, over the names of these files.
\<close>

definition matches_digits_pattern :: "string \<Rightarrow> string \<Rightarrow> bool" where
  "matches_digits_pattern pattern f =
     (4 \<le> length f \<and> take (length f - 4) f @ ''[0-9][0-9][0-9][0-9]'' = pattern \<and>
      list_all is_digit (drop (length f - 4) f))"

definition world_of :: "(string \<times> string) list \<Rightarrow> world" where
  "world_of fs =
     \<lparr>files = map_of fs,
      glob = (\<lambda>pattern. filter (matches_digits_pattern pattern) (map fst fs)),
      console = []\<rparr>"

text \<open>A world with one file, for the examples.\<close>

definition single_file :: "string \<Rightarrow> string \<Rightarrow> world" where
  "single_file path text = \<lparr>files = [path \<mapsto> text], glob = (\<lambda>pattern. []), console = []\<rparr>"

section \<open>Properties of the loop\<close>

subsection \<open>One iteration\<close>

lemma check_keywords_classify:
  "check_keywords line s =
     (case classify line of
        SOLUTION \<Rightarrow> s\<lparr>in_solution := True, restart_updated := False, found_restart := False,
          found_include := False, found_commented_include := False\<rparr>
      | SUMMARY \<Rightarrow> s\<lparr>in_solution := False\<rparr>
      | SCHEDULE \<Rightarrow> s\<lparr>in_schedule := True, in_solution := False, found_skiprest := False,
          found_include := False, found_commented_include := False\<rparr>
      | RESTART \<Rightarrow> s\<lparr>found_restart := True\<rparr>
      | INCLUDE \<Rightarrow> s\<lparr>found_include := True\<rparr>
      | COMMENTED \<Rightarrow> s\<lparr>found_commented_include := True\<rparr>
      | OTHER \<Rightarrow> s)"
  by (simp add: check_keywords_def classify_def)

lemma prefix_Cons_iff: "prefix (a # xs) l \<longleftrightarrow> (\<exists>t. l = a # t \<and> prefix xs t)"
  by (cases l) auto

lemma startswith_SC: "startswith l ''SCHEDULE'' \<Longrightarrow> \<exists>t. l = CHR ''S'' # CHR ''C'' # t"
  by (auto simp: startswith_def prefix_Cons_iff)

lemma startswith_SO: "startswith l ''SOLUTION'' \<Longrightarrow> \<exists>t. l = CHR ''S'' # CHR ''O'' # t"
  by (auto simp: startswith_def prefix_Cons_iff)

lemma startswith_SU: "startswith l ''SUMMARY'' \<Longrightarrow> \<exists>t. l = CHR ''S'' # CHR ''U'' # t"
  by (auto simp: startswith_def prefix_Cons_iff)

lemma startswith_R: "startswith l ''RESTART'' \<Longrightarrow> \<exists>t. l = CHR ''R'' # t"
  by (auto simp: startswith_def prefix_Cons_iff)

lemma startswith_I: "startswith l ''INCLUDE'' \<Longrightarrow> \<exists>t. l = CHR ''I'' # t"
  by (auto simp: startswith_def prefix_Cons_iff)

lemma commented_include_dash: "commented_include l \<Longrightarrow> \<exists>t. l = CHR ''-'' # t"
  by (auto simp: commented_include_def prefix_Cons_iff)


lemma classify_SUMMARY: "classify l = SUMMARY \<longleftrightarrow> startswith l ''SUMMARY''"
  using startswith_SO [of l] startswith_SU [of l] by (auto simp: classify_def)


lemma classify_RESTART: "classify l = RESTART \<longleftrightarrow> startswith l ''RESTART''"
  using startswith_SO [of l] startswith_SU [of l] startswith_SC [of l] startswith_R [of l]
  by (auto simp: classify_def)

lemma classify_INCLUDE: "classify l = INCLUDE \<longleftrightarrow> startswith l ''INCLUDE''"
  using startswith_SO [of l] startswith_SU [of l] startswith_SC [of l] startswith_R [of l]
    startswith_I [of l]
  by (auto simp: classify_def)

lemma classify_COMMENTED: "classify l = COMMENTED \<longleftrightarrow> commented_include l"
  using startswith_SO [of l] startswith_SU [of l] startswith_SC [of l] startswith_R [of l]
    startswith_I [of l] commented_include_dash [of l]
  by (auto simp: classify_def)

lemma update_restart_eq:
  "update_restart b i (line, s) =
     (if found_restart s \<and> \<not> restart_updated s then
        (restart_line b i,
         s\<lparr>logged := logged s @ log_update_restart i, new_data := new_data s @ [line],
           data_file := snd (readline (data_file s)), restart_updated := True\<rparr>)
      else (line, s))"
  by (simp add: update_restart_def split: prod.split)

lemma comment_include_eq:
  "comment_include (line, s) =
     (if in_solution s \<and> found_include s \<and> \<not> found_commented_include s then
        (''--'' @ fst (readline (data_file s)),
         s\<lparr>logged := logged s @ log_comment_include, new_data := new_data s @ [''--'' @ line],
           data_file := snd (readline (data_file s)), found_commented_include := True\<rparr>)
      else (line, s))"
  by (simp add: comment_include_def split: prod.split)

lemma loop_body_eq:
  "loop_body b i l s =
     (let p = comment_include (update_restart b i (l, add_restart b i (check_keywords l s)));
          s'' = add_skiprest (snd p)
      in s''\<lparr>new_data := new_data s'' @ [fst p]\<rparr>)"
  by (simp add: loop_body_def Let_def split: prod.split)

lemmas rule_defs =
  loop_body_eq add_restart_def update_restart_eq comment_include_eq add_skiprest_def Let_def

lemma readline_Nil [simp]: "readline [] = ('''', [])"
  by (simp add: readline_def)

lemma readline_Cons [simp]: "readline (l # ls) = (l, ls)"
  by (simp add: readline_def)

lemma snd_readline: "snd (readline f) = drop 1 f"
  by (cases f) simp_all

lemma loop_Nil: "data_file s = [] \<Longrightarrow> loop b i s = s"
  by (subst loop.simps) simp

lemma loop_Cons:
  "data_file s = l # ls \<Longrightarrow> loop b i s = loop b i (loop_body b i l (s\<lparr>data_file := ls\<rparr>))"
  by (subst loop.simps) simp

lemma visited_Nil: "data_file s = [] \<Longrightarrow> visited b i s = [s]"
  by (subst visited.simps) simp

lemma visited_Cons:
  "data_file s = l # ls \<Longrightarrow>
   visited b i s = s # visited b i (loop_body b i l (s\<lparr>data_file := ls\<rparr>))"
  by (subst visited.simps) simp

subsection \<open>The invariant\<close>

lemma inv_data_file [simp]: "inv (s\<lparr>data_file := f\<rparr>) = inv s"
  by (simp add: inv_def)

lemma inv_body: "inv s \<Longrightarrow> inv (loop_body b i l s)"
  by (cases "classify l") (auto simp add: rule_defs check_keywords_classify inv_def)

lemma inv_initial: "inv (initial ls)"
  by (simp add: inv_def initial_def)





subsection \<open>Iterations by the branch taken, under the invariant\<close>

lemma body_RESTART_open:
  "inv s \<Longrightarrow> classify l = RESTART \<Longrightarrow> \<not> restart_updated s \<Longrightarrow>
   loop_body b i l s = s\<lparr>found_restart := True, restart_updated := True,
      new_data := new_data s @ [l, restart_line b i], data_file := drop 1 (data_file s),
      logged := logged s @ log_update_restart i\<rparr>"
  by (auto simp add: rule_defs check_keywords_classify inv_def snd_readline)


lemma open_update:
  "open_text w (b @ ''.DATA'') = Inr deck \<Longrightarrow>
   update_data_file w b i = (rewrite_log b i deck, Inr (rewrite_lines b i deck))"
  by (simp add: update_data_file_def rewrite_log_def rewrite_lines_def Let_def)

subsection \<open>The output only grows\<close>

lemma new_data_check_keywords [simp]: "new_data (check_keywords l s) = new_data s"
  by (simp add: check_keywords_def)

lemma prefix_add_restart: "prefix (new_data s) (new_data (add_restart b i s))"
  by (simp add: add_restart_def)

lemma prefix_update_restart: "prefix (new_data s) (new_data (snd (update_restart b i (l, s))))"
  by (simp add: update_restart_eq)

lemma prefix_comment_include: "prefix (new_data s) (new_data (snd (comment_include (l, s))))"
  by (simp add: comment_include_eq)

lemma prefix_add_skiprest: "prefix (new_data s) (new_data (add_skiprest s))"
  by (simp add: add_skiprest_def)

lemma prefix_loop_body: "prefix (new_data s) (new_data (loop_body b i l s))"
proof -
  let ?s1 = "add_restart b i (check_keywords l s)"
  let ?p2 = "update_restart b i (l, ?s1)"
  let ?p3 = "comment_include ?p2"
  let ?s4 = "add_skiprest (snd ?p3)"
  have "prefix (new_data s) (new_data ?s1)"
    using prefix_add_restart [of "check_keywords l s" b i] by simp
  also have "prefix \<dots> (new_data (snd ?p2))" by (rule prefix_update_restart)
  also have "prefix \<dots> (new_data (snd ?p3))"
    using prefix_comment_include [of "snd ?p2" "fst ?p2"] by simp
  also have "prefix \<dots> (new_data ?s4)" by (rule prefix_add_skiprest)
  also have "prefix \<dots> (new_data (loop_body b i l s))"
    by (simp add: loop_body_eq Let_def)
  finally show ?thesis .
qed




lemmas eval_defs = initial_def loop_body_def check_keywords_def add_restart_def update_restart_def
  comment_include_def add_skiprest_def readline_def startswith_def commented_include_def restart_line_def
  log_add_restart_def log_update_restart_def log_comment_include_def log_add_skiprest_def

subsection \<open>Counting what the log records\<close>

lemma restart_events_append [simp]:
  "restart_events (xs @ ys) = restart_events xs + restart_events ys"
  by (simp add: restart_events_def)

lemma skiprest_events_append [simp]:
  "skiprest_events (xs @ ys) = skiprest_events xs + skiprest_events ys"
  by (simp add: skiprest_events_def)

lemma events_Nil [simp]: "restart_events [] = 0" "skiprest_events [] = 0"
  by (simp_all add: restart_events_def skiprest_events_def)

lemma restart_events_logs [simp]:
  "restart_events (log_add_restart i) = 1"
  "restart_events (log_update_restart i) = 1"
  "restart_events log_comment_include = 0"
  "restart_events log_add_skiprest = 0"
  by (simp_all add: restart_events_def log_add_restart_def log_update_restart_def
      log_comment_include_def log_add_skiprest_def)

lemma skiprest_events_logs [simp]:
  "skiprest_events (log_add_restart i) = 0"
  "skiprest_events (log_update_restart i) = 0"
  "skiprest_events log_comment_include = 0"
  "skiprest_events log_add_skiprest = 1"
  by (simp_all add: skiprest_events_def log_add_restart_def log_update_restart_def
      log_comment_include_def log_add_skiprest_def)





lemma suffix_update_restart: "suffix (data_file (snd (update_restart b i (l, s)))) (data_file s)"
  by (simp add: update_restart_eq snd_readline suffix_drop)

lemma suffix_comment_include: "suffix (data_file (snd (comment_include (l, s)))) (data_file s)"
  by (simp add: comment_include_eq snd_readline suffix_drop)

lemma suffix_loop_body: "suffix (data_file (loop_body b i l s)) (data_file s)"
proof -
  let ?s1 = "add_restart b i (check_keywords l s)"
  let ?p2 = "update_restart b i (l, ?s1)"
  let ?p3 = "comment_include ?p2"
  have "suffix (data_file (snd ?p3)) (data_file (snd ?p2))"
    using suffix_comment_include [of "fst ?p2" "snd ?p2"] by simp
  also have "suffix \<dots> (data_file ?s1)" by (rule suffix_update_restart)
  finally have "suffix (data_file (snd ?p3)) (data_file s)" by simp
  then show ?thesis by (simp add: loop_body_eq Let_def)
qed






subsection \<open>Further facts about single iterations\<close>

lemma body_INCLUDE:
  assumes "inv s" "classify l = INCLUDE"
  shows "new_data (loop_body b i l s) =
           new_data s
           @ (if in_solution s \<and> \<not> found_restart s then [''RESTART\<newline>'', restart_line b i, ''\<newline>''] else [])
           @ (if in_solution s \<and> \<not> found_commented_include s then [''--'' @ l] else [])
           @ (if in_schedule s \<and> \<not> found_skiprest s then [''SKIPREST\<newline>\<newline>''] else [])
           @ [if in_solution s \<and> \<not> found_commented_include s
              then ''--'' @ fst (readline (data_file s)) else l]"
    and "data_file (loop_body b i l s) =
           (if in_solution s \<and> \<not> found_commented_include s then drop 1 (data_file s) else data_file s)"
    and "logged (loop_body b i l s) =
           logged s
           @ (if in_solution s \<and> \<not> found_restart s then log_add_restart i else [])
           @ (if in_solution s \<and> \<not> found_commented_include s then log_comment_include else [])
           @ (if in_schedule s \<and> \<not> found_skiprest s then log_add_skiprest else [])"
    and "in_schedule s \<Longrightarrow> found_skiprest (loop_body b i l s)"
  using assms by (auto simp add: rule_defs check_keywords_classify inv_def snd_readline)


lemma body_RESTART_open_flags:
  "inv s \<Longrightarrow> classify l = RESTART \<Longrightarrow> \<not> restart_updated s \<Longrightarrow>
   found_restart (loop_body b i l s) \<and> restart_updated (loop_body b i l s) \<and>
   in_solution (loop_body b i l s) = in_solution s \<and>
   new_data (loop_body b i l s) = new_data s @ [l, restart_line b i] \<and>
   data_file (loop_body b i l s) = drop 1 (data_file s) \<and>
   logged (loop_body b i l s) = logged s @ log_update_restart i"
  by (simp add: body_RESTART_open)

subsection \<open>Decks without a SOLUTION line\<close>

lemma added_restart_notin:
  "added_restart \<notin> set (log_update_restart i)" "added_restart \<notin> set log_add_skiprest"
  by (simp_all add: added_restart_def log_update_restart_def log_add_skiprest_def)

lemma not_restart_generated [simp]:
  "\<not> startswith (restart_line b i) ''RESTART''" "\<not> startswith ''SKIPREST\<newline>\<newline>'' ''RESTART''"
  by (simp_all add: startswith_def restart_line_def)

lemma logged_check_keywords [simp]: "logged (check_keywords l s) = logged s"
  by (simp add: check_keywords_def)

lemma in_solution_check_keywords:
  "\<not> in_solution s \<Longrightarrow> \<not> startswith l ''SOLUTION'' \<Longrightarrow> \<not> in_solution (check_keywords l s)"
  by (simp add: check_keywords_def)

lemma body_outside_solution_aux:
  assumes "\<not> in_solution (check_keywords l s)"
  shows "\<not> in_solution (loop_body b i l s)"
    and "filter (\<lambda>x. startswith x ''RESTART'') (new_data (loop_body b i l s))
          = filter (\<lambda>x. startswith x ''RESTART'') (new_data s @ [l])"
    and "added_restart \<in> set (logged (loop_body b i l s)) \<longrightarrow> added_restart \<in> set (logged s)"
  using assms added_restart_notin
  by (simp_all add: rule_defs)

lemma body_outside_solution:
  assumes "\<not> in_solution s" "\<not> startswith l ''SOLUTION''"
  shows "\<not> in_solution (loop_body b i l s)"
    and "filter (\<lambda>x. startswith x ''RESTART'') (new_data (loop_body b i l s))
          = filter (\<lambda>x. startswith x ''RESTART'') (new_data s @ [l])"
    and "added_restart \<in> set (logged (loop_body b i l s)) \<longrightarrow> added_restart \<in> set (logged s)"
  using body_outside_solution_aux [OF in_solution_check_keywords [OF assms]] by blast+

lemma subseq_filter_suffix:
  "suffix ys xs \<Longrightarrow> subseq (filter P ys) (filter P xs)"
  by (auto simp: suffix_def)

lemma loop_outside_solution:
  assumes "\<not> in_solution s" "\<forall>l\<in>set (data_file s). \<not> startswith l ''SOLUTION''"
  shows "(\<exists>xs. filter (\<lambda>x. startswith x ''RESTART'') (new_data (loop b i s))
                 = filter (\<lambda>x. startswith x ''RESTART'') (new_data s) @ xs \<and>
               subseq xs (filter (\<lambda>x. startswith x ''RESTART'') (data_file s))) \<and>
         (added_restart \<in> set (logged (loop b i s)) \<longrightarrow> added_restart \<in> set (logged s))"
  using assms
proof (induction b i s rule: loop.induct)
  case (1 b i s)
  show ?case
  proof (cases "data_file s")
    case Nil
    then show ?thesis by (simp add: loop_Nil)
  next
    case (Cons l ls)
    let ?R = "\<lambda>x. startswith x ''RESTART''"
    let ?t = "loop_body b i l (s\<lparr>data_file := ls\<rparr>)"
    have l: "\<not> startswith l ''SOLUTION''" using 1(3) Cons by simp
    have suf: "suffix (data_file ?t) ls"
      using suffix_loop_body [of b i l "s\<lparr>data_file := ls\<rparr>"] by simp
    then have "set (data_file ?t) \<subseteq> set ls" by (rule set_mono_suffix)
    then have rest: "\<forall>l\<in>set (data_file ?t). \<not> startswith l ''SOLUTION''"
      using 1(3) Cons by auto
    have out: "\<not> in_solution ?t"
      using body_outside_solution(1) [of "s\<lparr>data_file := ls\<rparr>" l b i] 1(2) l by simp
    have nd: "filter ?R (new_data ?t) = filter ?R (new_data s) @ filter ?R [l]"
      using body_outside_solution(2) [of "s\<lparr>data_file := ls\<rparr>" l b i] 1(2) l by simp
    have lg: "added_restart \<in> set (logged ?t) \<longrightarrow> added_restart \<in> set (logged s)"
      using body_outside_solution(3) [of "s\<lparr>data_file := ls\<rparr>" l b i] 1(2) l by simp
    from 1(1) [OF Cons out rest] obtain xs where
      xs: "filter ?R (new_data (loop b i ?t)) = filter ?R (new_data ?t) @ xs"
        "subseq xs (filter ?R (data_file ?t))"
      and lg': "added_restart \<in> set (logged (loop b i ?t)) \<longrightarrow> added_restart \<in> set (logged ?t)"
      by blast
    have "subseq xs (filter ?R ls)"
      using xs(2) subseq_filter_suffix [OF suf, of ?R] by (rule subseq_order.trans)
    then have "subseq (filter ?R [l] @ xs) (filter ?R (l # ls))"
      by (simp add: subseq_Cons2)
    then show ?thesis
      using xs(1) nd lg lg' Cons by (auto simp add: loop_Cons)
  qed
qed


lemmas eval_defs2 = eval_defs rewrite_lines_def rewrite_log_def loop.simps
  restart_events_def skiprest_events_def

section \<open>Properties of the resolver and of the script\<close>

lemma sorted_le_last:
  fixes ys :: "'a::linorder list"
  shows "sorted ys \<Longrightarrow> x \<in> set ys \<Longrightarrow> x \<le> last ys"
  by (induction ys) auto

lemma last_sort_greatest:
  fixes xs :: "'a::linorder list"
  assumes "xs \<noteq> []"
  shows "last (sort xs) \<in> set xs \<and> (\<forall>x\<in>set xs. x \<le> last (sort xs))"
proof -
  have ne: "sort xs \<noteq> []"
    using assms by (cases xs) (auto simp: insort_is_Cons)
  have "last (sort xs) \<in> set (sort xs)" using ne by (rule last_in_set)
  moreover have "\<forall>x\<in>set (sort xs). x \<le> last (sort xs)"
    using sorted_le_last [OF sorted_sort] by blast
  ultimately show ?thesis by simp
qed

lemma search_x_id_name:
  "four_digits m \<Longrightarrow> search_x_id (b @ ''.X'' @ m) = Some m"
  by (simp add: search_x_id_def ends_x_id_def four_digits_def)

lemma search_x_id_ends:
  "ends_x_id f \<Longrightarrow> search_x_id f = Some (drop (length f - 4) f)"
  by (simp add: search_x_id_def)

lemma ends_x_id_name: "four_digits m \<Longrightarrow> ends_x_id (b @ ''.X'' @ m)"
  by (simp add: ends_x_id_def four_digits_def)

lemma resolver_fails_iff:
  assumes "\<forall>f\<in>set (glob w (x_pattern b)). ends_x_id f"
  shows "snd (determine_restart_id w b) = Inl (SystemExit 1) \<longleftrightarrow>
           glob w (x_pattern b) = [] \<or>
           files w (b @ ''.S'' @ drop (length (last (sort (glob w (x_pattern b)))) - 4)
                                   (last (sort (glob w (x_pattern b))))) = None"
    and "snd (determine_restart_id w b) \<noteq> Inl (SystemExit 1) \<Longrightarrow>
           snd (determine_restart_id w b) =
             Inr (drop (length (last (sort (glob w (x_pattern b)))) - 4)
                       (last (sort (glob w (x_pattern b)))))"
proof -
  let ?xs = "glob w (x_pattern b)"
  show "snd (determine_restart_id w b) = Inl (SystemExit 1) \<longleftrightarrow>
           ?xs = [] \<or> files w (b @ ''.S'' @ drop (length (last (sort ?xs)) - 4) (last (sort ?xs))) = None"
  proof (cases "?xs = []")
    case True
    then show ?thesis by (simp add: determine_restart_id_def)
  next
    case False
    then have s: "sort ?xs \<noteq> []" by (cases ?xs) (auto simp: insort_is_Cons)
    have "last (sort ?xs) \<in> set ?xs" using last_sort_greatest [OF False] by blast
    then have "search_x_id (last (sort ?xs)) = Some (drop (length (last (sort ?xs)) - 4) (last (sort ?xs)))"
      using assms search_x_id_ends by blast
    then show ?thesis using False s by (simp add: determine_restart_id_def Let_def)
  qed
  show "snd (determine_restart_id w b) \<noteq> Inl (SystemExit 1) \<Longrightarrow>
           snd (determine_restart_id w b) =
             Inr (drop (length (last (sort ?xs)) - 4) (last (sort ?xs)))"
  proof (cases "?xs = []")
    case True
    assume "snd (determine_restart_id w b) \<noteq> Inl (SystemExit 1)"
    then show ?thesis using True by (simp add: determine_restart_id_def)
  next
    case False
    assume a: "snd (determine_restart_id w b) \<noteq> Inl (SystemExit 1)"
    have s: "sort ?xs \<noteq> []" using False by (cases ?xs) (auto simp: insort_is_Cons)
    have "last (sort ?xs) \<in> set ?xs" using last_sort_greatest [OF False] by blast
    then have "search_x_id (last (sort ?xs)) = Some (drop (length (last (sort ?xs)) - 4) (last (sort ?xs)))"
      using assms search_x_id_ends by blast
    then show ?thesis using False s a by (simp add: determine_restart_id_def Let_def split: if_splits)
  qed
qed

lemma main_resolver_fails:
  assumes "restore_step a w = Inr w1" and "snd (determine_restart_id w1 (basename_of a)) = Inl e"
  shows "main a w = Inl (e, log_to (fst (determine_restart_id w1 (basename_of a))) w1)"
  using assms by (cases "determine_restart_id w1 (basename_of a)") (simp add: main_def)

lemma restore_step_off: "\<not> restore a \<Longrightarrow> restore_step a w = Inr w"
  by (simp add: restore_step_def)

lemma restore_step_on:
  "restore a \<Longrightarrow> files w (basename_of a @ ''.DATA.BACKUP'') = Some t \<Longrightarrow>
   \<exists>w1. restore_step a w = Inr w1 \<and> files w1 = (files w)(basename_of a @ ''.DATA'' \<mapsto> t) \<and>
     glob w1 = glob w"
  by (simp add: restore_step_def copyfile_def log_to_def Let_def)

section \<open>The frame of the rewriting\<close>

lemma body_plain:
  assumes "inv s" "classify l \<noteq> INCLUDE" "classify l \<noteq> COMMENTED"
    "classify l = RESTART \<longrightarrow> restart_updated s"
  shows "new_data (loop_body b i l s) = new_data s @ [l] \<and>
         data_file (loop_body b i l s) = data_file s"
  using assms
  by (cases "classify l") (auto simp add: rule_defs check_keywords_classify inv_def)

lemma body_COMMENTED:
  assumes "inv s" "classify l = COMMENTED"
  shows "new_data (loop_body b i l s) =
           new_data s
           @ (if in_solution s \<and> \<not> found_restart s then [''RESTART\<newline>'', restart_line b i, ''\<newline>''] else [])
           @ [l] \<and>
         data_file (loop_body b i l s) = data_file s"
  using assms by (auto simp add: rule_defs check_keywords_classify inv_def)

lemma taken_Nil: "data_file s = [] \<Longrightarrow> taken b i s = []"
  by (simp add: taken_def visited_Nil)

lemma taken_Cons:
  "data_file s = l # ls \<Longrightarrow>
   taken b i s = (l, s\<lparr>data_file := ls\<rparr>) # taken b i (loop_body b i l (s\<lparr>data_file := ls\<rparr>))"
  by (simp add: taken_def visited_Cons)

lemma new_data_emitted: "new_data (loop_body b i l s) = new_data s @ emitted b i l s"
  using prefix_loop_body [of s b i l] by (auto simp add: emitted_def prefix_def)

lemma data_file_read_ahead: "data_file s = read_ahead b i l s @ data_file (loop_body b i l s)"
  using suffix_loop_body [of b i l s] by (auto simp add: read_ahead_def suffix_def)

lemma loop_emitted:
  "new_data (loop b i s) = new_data s @ concat (map (\<lambda>(l, t). emitted b i l t) (taken b i s))"
proof (induction b i s rule: loop.induct)
  case (1 b i s)
  show ?case
  proof (cases "data_file s")
    case Nil
    then show ?thesis by (simp add: loop_Nil taken_Nil)
  next
    case (Cons l ls)
    let ?s = "s\<lparr>data_file := ls\<rparr>"
    have "new_data (loop b i (loop_body b i l ?s))
        = new_data (loop_body b i l ?s)
          @ concat (map (\<lambda>(l, t). emitted b i l t) (taken b i (loop_body b i l ?s)))"
      using 1 Cons by simp
    then show ?thesis
      using Cons new_data_emitted [of b i l ?s] by (simp add: loop_Cons taken_Cons)
  qed
qed

lemma taken_read_ahead:
  "data_file s = concat (map (\<lambda>(l, t). l # read_ahead b i l t) (taken b i s))"
proof (induction b i s rule: visited.induct)
  case (1 b i s)
  show ?case
  proof (cases "data_file s")
    case Nil
    then show ?thesis by (simp add: taken_Nil)
  next
    case (Cons l ls)
    let ?s = "s\<lparr>data_file := ls\<rparr>"
    have "data_file (loop_body b i l ?s)
        = concat (map (\<lambda>(l, t). l # read_ahead b i l t) (taken b i (loop_body b i l ?s)))"
      using 1 Cons by simp
    then show ?thesis
      using Cons data_file_read_ahead [of ?s b i l] by (simp add: taken_Cons)
  qed
qed

lemma taken_inv: "inv s \<Longrightarrow> (l, t) \<in> set (taken b i s) \<Longrightarrow> inv t"
proof (induction b i s rule: visited.induct)
  case (1 b i s)
  show ?case
  proof (cases "data_file s")
    case Nil
    then show ?thesis using 1 by (simp add: taken_Nil)
  next
    case (Cons l0 ls)
    then show ?thesis using 1 by (auto simp add: taken_Cons inv_body)
  qed
qed

lemmas gate_defs = inserts_restart_def updates_restart_def comments_include_def inserts_skiprest_def

lemma inserts_restart_iff:
  "inv s \<Longrightarrow> inserts_restart l s \<longleftrightarrow>
     (classify l = INCLUDE \<or> classify l = COMMENTED) \<and> in_solution s \<and> \<not> found_restart s"
  by (cases "classify l") (auto simp add: gate_defs check_keywords_classify inv_def)

lemma updates_restart_iff:
  "inv s \<Longrightarrow> updates_restart b i l s \<longleftrightarrow> classify l = RESTART \<and> \<not> restart_updated s"
  by (cases "classify l")
     (auto simp add: gate_defs check_keywords_classify add_restart_def inv_def)

lemma comments_include_iff:
  "inv s \<Longrightarrow> comments_include b i l s \<longleftrightarrow>
     classify l = INCLUDE \<and> in_solution s \<and> \<not> found_commented_include s"
  by (cases "classify l")
     (auto simp add: gate_defs check_keywords_classify add_restart_def update_restart_eq inv_def)

lemma inserts_skiprest_iff:
  "inv s \<Longrightarrow> inserts_skiprest b i l s \<longleftrightarrow>
     classify l = INCLUDE \<and> in_schedule s \<and> \<not> found_skiprest s"
  by (cases "classify l")
     (auto simp add: gate_defs check_keywords_classify add_restart_def update_restart_eq
        comment_include_eq inv_def)

lemma take_length_drop1: "take (length xs - (length xs - Suc 0)) xs = take (Suc 0) xs"
  by (cases xs) auto

lemma emitted_eq: "new_data (loop_body b i l s) = new_data s @ xs \<Longrightarrow> emitted b i l s = xs"
  by (simp add: emitted_def)

lemma iteration_untouched:
  assumes "inv s" "\<not> updates_restart b i l s" "\<not> comments_include b i l s"
  shows "emitted b i l s =
           (if inserts_restart l s then [''RESTART\<newline>'', restart_line b i, ''\<newline>''] else [])
           @ (if inserts_skiprest b i l s then [''SKIPREST\<newline>\<newline>''] else []) @ [l] \<and>
         read_ahead b i l s = []"
proof (cases "classify l = INCLUDE")
  case True
  have c: "\<not> (in_solution s \<and> \<not> found_commented_include s)"
    using assms(3) True by (simp add: comments_include_iff [OF assms(1)])
  then have a: "\<not> (in_solution s \<and> \<not> found_restart s)"
    using assms(1) by (auto simp add: inv_def)
  have "new_data (loop_body b i l s) = new_data s
      @ ((if inserts_restart l s then [''RESTART\<newline>'', restart_line b i, ''\<newline>''] else [])
         @ (if inserts_skiprest b i l s then [''SKIPREST\<newline>\<newline>''] else []) @ [l])"
    using body_INCLUDE(1) [OF assms(1) True, of b i] c a True
    by (auto simp add: inserts_restart_iff [OF assms(1)] inserts_skiprest_iff [OF assms(1)])
  moreover have "data_file (loop_body b i l s) = data_file s"
    using body_INCLUDE(2) [OF assms(1) True, of b i] c by auto
  ultimately show ?thesis by (simp add: emitted_eq read_ahead_def)
next
  case ni: False
  show ?thesis
  proof (cases "classify l = COMMENTED")
    case True
    have "new_data (loop_body b i l s) = new_data s
      @ ((if inserts_restart l s then [''RESTART\<newline>'', restart_line b i, ''\<newline>''] else [])
         @ (if inserts_skiprest b i l s then [''SKIPREST\<newline>\<newline>''] else []) @ [l])"
      using body_COMMENTED [OF assms(1) True, of b i] True
      by (auto simp add: inserts_restart_iff [OF assms(1)] inserts_skiprest_iff [OF assms(1)])
    moreover have "data_file (loop_body b i l s) = data_file s"
      using body_COMMENTED [OF assms(1) True, of b i] by simp
    ultimately show ?thesis by (simp add: emitted_eq read_ahead_def)
  next
    case nc: False
    have r: "classify l = RESTART \<longrightarrow> restart_updated s"
      using assms(2) by (simp add: updates_restart_iff [OF assms(1)])
    have "new_data (loop_body b i l s) = new_data s
      @ ((if inserts_restart l s then [''RESTART\<newline>'', restart_line b i, ''\<newline>''] else [])
         @ (if inserts_skiprest b i l s then [''SKIPREST\<newline>\<newline>''] else []) @ [l])"
      using body_plain [OF assms(1) ni nc r, of b i] ni nc
      by (simp add: inserts_restart_iff [OF assms(1)] inserts_skiprest_iff [OF assms(1)])
    moreover have "data_file (loop_body b i l s) = data_file s"
      using body_plain [OF assms(1) ni nc r, of b i] by simp
    ultimately show ?thesis by (simp add: emitted_eq read_ahead_def)
  qed
qed

lemma iteration_update:
  assumes "inv s" "updates_restart b i l s"
  shows "startswith l ''RESTART'' \<and> \<not> comments_include b i l s \<and>
         emitted b i l s = [l, restart_line b i] \<and> read_ahead b i l s = take 1 (data_file s)"
proof -
  have c: "classify l = RESTART" "\<not> restart_updated s"
    using assms(2) by (simp_all add: updates_restart_iff [OF assms(1)])
  have "new_data (loop_body b i l s) = new_data s @ [l, restart_line b i]"
    "data_file (loop_body b i l s) = drop 1 (data_file s)"
    using body_RESTART_open_flags [OF assms(1) c, of b i] by simp_all
  moreover have "startswith l ''RESTART''" using c(1) by (simp add: classify_RESTART)
  moreover have "\<not> comments_include b i l s"
    using c(1) by (simp add: comments_include_iff [OF assms(1)])
  ultimately show ?thesis
    by (simp add: emitted_eq read_ahead_def take_length_drop1)
qed

lemma iteration_comment:
  assumes "inv s" "comments_include b i l s"
  shows "startswith l ''INCLUDE'' \<and> \<not> updates_restart b i l s \<and>
         emitted b i l s =
           (if inserts_restart l s then [''RESTART\<newline>'', restart_line b i, ''\<newline>''] else [])
           @ [''--'' @ l]
           @ (if inserts_skiprest b i l s then [''SKIPREST\<newline>\<newline>''] else [])
           @ [''--'' @ fst (readline (data_file s))] \<and>
         read_ahead b i l s = take 1 (data_file s)"
proof -
  have c: "classify l = INCLUDE" "in_solution s \<and> \<not> found_commented_include s"
    using assms(2) by (simp_all add: comments_include_iff [OF assms(1)])
  have "new_data (loop_body b i l s) = new_data s
      @ ((if inserts_restart l s then [''RESTART\<newline>'', restart_line b i, ''\<newline>''] else [])
         @ [''--'' @ l]
         @ (if inserts_skiprest b i l s then [''SKIPREST\<newline>\<newline>''] else [])
         @ [''--'' @ fst (readline (data_file s))])"
    using body_INCLUDE(1) [OF assms(1) c(1), of b i] c
    by (auto simp add: inserts_restart_iff [OF assms(1)] inserts_skiprest_iff [OF assms(1)])
  moreover have "data_file (loop_body b i l s) = drop 1 (data_file s)"
    using body_INCLUDE(2) [OF assms(1) c(1), of b i] c by auto
  moreover have "startswith l ''INCLUDE''" using c(1) by (simp add: classify_INCLUDE)
  moreover have "\<not> updates_restart b i l s"
    using c(1) by (simp add: updates_restart_iff [OF assms(1)])
  ultimately show ?thesis
    by (simp add: emitted_eq read_ahead_def take_length_drop1)
qed

lemma concat_text_lines: "concat (text_lines t) = t"
  by (induction t) (auto split: list.splits)

lemma universal_newlines_id: "CHR 0x0D \<notin> set t \<Longrightarrow> universal_newlines t = t"
  by (induction t rule: universal_newlines.induct) auto

lemma subseq_concat_map:
  "(\<And>x. x \<in> set xs \<Longrightarrow> subseq (f x) (g x)) \<Longrightarrow> subseq (concat (map f xs)) (concat (map g xs))"
  by (induction xs) (auto intro: list_emb_append_mono)

lemma map_fst_filter_concat:
  "map fst (filter P xs) = concat (map (\<lambda>x. if P x then [fst x] else []) xs)"
  by (induction xs) auto

lemma unmodified_subseq:
  assumes "inv s"
  shows "subseq (map fst (filter (\<lambda>(l, t). \<not> comments_include b i l t) (taken b i s)))
                (concat (map (\<lambda>(l, t). emitted b i l t) (taken b i s)))"
proof -
  have "subseq (if \<not> comments_include b i l t then [l] else []) (emitted b i l t)"
    if "(l, t) \<in> set (taken b i s)" for l t
  proof (cases "comments_include b i l t")
    case True
    then show ?thesis by simp
  next
    case False
    have inv: "inv t" using taken_inv [OF assms that] .
    show ?thesis
    proof (cases "updates_restart b i l t")
      case True
      then show ?thesis using iteration_update [OF inv True] False by simp
    next
      case u: False
      have "emitted b i l t =
           ((if inserts_restart l t then [''RESTART\<newline>'', restart_line b i, ''\<newline>''] else [])
           @ (if inserts_skiprest b i l t then [''SKIPREST\<newline>\<newline>''] else [])) @ [l]"
        using iteration_untouched [OF inv u False] by simp
      moreover have "subseq [l] (((if inserts_restart l t then [''RESTART\<newline>'', restart_line b i, ''\<newline>''] else [])
           @ (if inserts_skiprest b i l t then [''SKIPREST\<newline>\<newline>''] else [])) @ [l])"
        by (rule list_emb_append2) simp
      ultimately show ?thesis using False by simp
    qed
  qed
  note step = this
  have "subseq (concat (map (\<lambda>x. if (case x of (l, t) \<Rightarrow> \<not> comments_include b i l t) then [fst x] else [])
                                   (taken b i s)))
                    (concat (map (\<lambda>(l, t). emitted b i l t) (taken b i s)))"
  proof (rule subseq_concat_map)
    fix x assume x: "x \<in> set (taken b i s)"
    obtain l t where lt: "x = (l, t)" by (cases x)
    show "subseq (if (case x of (l, t) \<Rightarrow> \<not> comments_include b i l t) then [fst x] else [])
                 (case x of (l, t) \<Rightarrow> emitted b i l t)"
      using step [of l t] x by (auto simp add: lt split: if_splits)
  qed
  then show ?thesis by (simp add: map_fst_filter_concat)
qed

section \<open>The scan of a deck by stages\<close>

lemma outside_check_keywords:
  "outside s \<Longrightarrow> \<not> startswith l ''SOLUTION'' \<Longrightarrow> \<not> startswith l ''SCHEDULE'' \<Longrightarrow>
   \<not> startswith l ''RESTART'' \<Longrightarrow> outside (check_keywords l s)"
  by (simp add: check_keywords_def outside_def)

lemma body_from_outside:
  assumes "outside (check_keywords l s)"
  shows "loop_body b i l s = (check_keywords l s)\<lparr>new_data := new_data s @ [l]\<rparr>"
  using assms by (simp add: rule_defs outside_def)

lemma step_outside:
  assumes "outside s" "\<not> startswith l ''SOLUTION''" "\<not> startswith l ''SCHEDULE''"
    "\<not> startswith l ''RESTART''"
  shows "outside (loop_body b i l s) \<and> new_data (loop_body b i l s) = new_data s @ [l] \<and>
         data_file (loop_body b i l s) = data_file s"
  using outside_check_keywords [OF assms] body_from_outside [of l s b i]
  by (simp add: outside_def)

lemma step_solution:
  assumes "outside s" "startswith l ''SOLUTION''"
  shows "fresh (loop_body b i l s) \<and> new_data (loop_body b i l s) = new_data s @ [l] \<and>
         data_file (loop_body b i l s) = data_file s"
  using assms by (simp add: rule_defs check_keywords_def outside_def fresh_def)

lemma step_fresh:
  assumes "fresh s" "classify l = OTHER"
  shows "fresh (loop_body b i l s) \<and> new_data (loop_body b i l s) = new_data s @ [l] \<and>
         data_file (loop_body b i l s) = data_file s"
  using assms by (simp add: rule_defs check_keywords_classify fresh_def)

lemma step_include:
  assumes "fresh s" "startswith l ''INCLUDE''"
  shows "settled (loop_body b i l s) \<and>
         new_data (loop_body b i l s) =
           new_data s @ [''RESTART\<newline>'', restart_line b i, ''\<newline>'', ''--'' @ l,
                         ''--'' @ fst (readline (data_file s))] \<and>
         data_file (loop_body b i l s) = drop 1 (data_file s)"
  using assms
  by (simp add: rule_defs check_keywords_classify classify_INCLUDE [symmetric] fresh_def settled_def
      snd_readline)

lemma settled_check_keywords:
  "settled s \<Longrightarrow> \<not> startswith l ''SOLUTION'' \<Longrightarrow> settled (check_keywords l s)"
  by (simp add: check_keywords_def settled_def)

lemma body_from_settled:
  assumes "settled (check_keywords l s)"
  shows "settled (loop_body b i l s) \<and>
         new_data (loop_body b i l s) =
           new_data s @ (if in_schedule (check_keywords l s) \<and> found_include (check_keywords l s)
                            \<and> \<not> found_skiprest (check_keywords l s)
                         then [''SKIPREST\<newline>\<newline>''] else []) @ [l] \<and>
         data_file (loop_body b i l s) = data_file s"
  using assms by (simp add: rule_defs settled_def)

lemma outside_data_file [simp]: "outside (s\<lparr>data_file := f\<rparr>) = outside s"
  by (simp add: outside_def)

lemma fresh_data_file [simp]: "fresh (s\<lparr>data_file := f\<rparr>) = fresh s"
  by (simp add: fresh_def)

lemma settled_data_file [simp]: "settled (s\<lparr>data_file := f\<rparr>) = settled s"
  by (simp add: settled_def)

lemma run_outside:
  assumes "outside s" "data_file s = xs @ rest"
    "\<forall>x\<in>set xs. \<not> startswith x ''SOLUTION'' \<and> \<not> startswith x ''SCHEDULE'' \<and> \<not> startswith x ''RESTART''"
  shows "\<exists>t. loop b i s = loop b i t \<and> outside t \<and> new_data t = new_data s @ xs \<and> data_file t = rest"
  using assms
proof (induction xs arbitrary: s)
  case Nil
  then show ?case by auto
next
  case (Cons x xs)
  let ?s1 = "loop_body b i x (s\<lparr>data_file := xs @ rest\<rparr>)"
  have l: "loop b i s = loop b i ?s1" using Cons.prems(2) by (simp add: loop_Cons)
  have st: "outside ?s1 \<and> new_data ?s1 = new_data s @ [x] \<and> data_file ?s1 = xs @ rest"
    using step_outside [of "s\<lparr>data_file := xs @ rest\<rparr>" x b i] Cons.prems(1,3) by simp
  obtain t where "loop b i ?s1 = loop b i t" "outside t" "new_data t = new_data ?s1 @ xs"
    "data_file t = rest"
    using Cons.IH [of ?s1] st Cons.prems(3) by auto
  then show ?case using l st by auto
qed

lemma run_fresh:
  assumes "fresh s" "data_file s = xs @ rest" "\<forall>x\<in>set xs. classify x = OTHER"
  shows "\<exists>t. loop b i s = loop b i t \<and> fresh t \<and> new_data t = new_data s @ xs \<and> data_file t = rest"
  using assms
proof (induction xs arbitrary: s)
  case Nil
  then show ?case by auto
next
  case (Cons x xs)
  let ?s1 = "loop_body b i x (s\<lparr>data_file := xs @ rest\<rparr>)"
  have l: "loop b i s = loop b i ?s1" using Cons.prems(2) by (simp add: loop_Cons)
  have st: "fresh ?s1 \<and> new_data ?s1 = new_data s @ [x] \<and> data_file ?s1 = xs @ rest"
    using step_fresh [of "s\<lparr>data_file := xs @ rest\<rparr>" x b i] Cons.prems(1,3) by simp
  obtain t where "loop b i ?s1 = loop b i t" "fresh t" "new_data t = new_data ?s1 @ xs"
    "data_file t = rest"
    using Cons.IH [of ?s1] st Cons.prems(3) by auto
  then show ?case using l st by auto
qed

lemma run_settled:
  assumes "settled s" "\<forall>x\<in>set (data_file s). \<not> startswith x ''SOLUTION''"
  shows "\<exists>out. new_data (loop b i s) = new_data s @ out \<and>
           filter (\<lambda>x. x \<noteq> ''SKIPREST\<newline>\<newline>'') out = filter (\<lambda>x. x \<noteq> ''SKIPREST\<newline>\<newline>'') (data_file s) \<and>
           subseq (data_file s) out"
  using assms
proof (induction b i s rule: loop.induct)
  case (1 b i s)
  show ?case
  proof (cases "data_file s")
    case Nil
    then show ?thesis by (simp add: loop_Nil)
  next
    case (Cons l ls)
    let ?s = "s\<lparr>data_file := ls\<rparr>"
    let ?t = "loop_body b i l ?s"
    have nl: "\<not> startswith l ''SOLUTION''" using 1(3) Cons by simp
    have sk: "settled (check_keywords l ?s)"
      using settled_check_keywords [of ?s l] 1(2) nl by simp
    note st = body_from_settled [OF sk, of b i]
    have df: "data_file ?t = ls" using st by simp
    obtain em where em: "new_data ?t = new_data s @ em @ [l]" "em = [] \<or> em = [''SKIPREST\<newline>\<newline>'']"
      using st by (cases "in_schedule (check_keywords l ?s) \<and> found_include (check_keywords l ?s)
                            \<and> \<not> found_skiprest (check_keywords l ?s)") auto
    have "\<forall>x\<in>set (data_file ?t). \<not> startswith x ''SOLUTION''" using df 1(3) Cons by simp
    then obtain out where out: "new_data (loop b i ?t) = new_data ?t @ out"
      "filter (\<lambda>x. x \<noteq> ''SKIPREST\<newline>\<newline>'') out = filter (\<lambda>x. x \<noteq> ''SKIPREST\<newline>\<newline>'') ls"
      "subseq ls out"
      using 1(1) [OF Cons] st df by auto
    have a: "new_data (loop b i s) = new_data s @ (em @ l # out)"
      using out(1) em(1) Cons by (simp add: loop_Cons)
    have b: "filter (\<lambda>x. x \<noteq> ''SKIPREST\<newline>\<newline>'') (em @ l # out)
        = filter (\<lambda>x. x \<noteq> ''SKIPREST\<newline>\<newline>'') (l # ls)"
      using em(2) out(2) by auto
    have c: "subseq (l # ls) (em @ l # out)"
      using em(2) out(3) by (auto simp add: subseq_Cons2)
    show ?thesis
      by (rule exI [of _ "em @ l # out"]) (simp only: a b c Cons simp_thms)
  qed
qed

section \<open>Claims\<close>

text \<open>
  C1. Idempotence. The claim: rewriting the output of a rewriting, with the same
  identifier, gives that output again. The code does not do that. The SKIPREST rule is
  commented \<open>Add SKIPREST to SCHEDULE section if not already there\<close>, but no branch of
  the keyword chain recognises a SKIPREST line, so \<open>found_skiprest\<close> is set by the
  insertion only. On a deck with a SOLUTION section and a SCHEDULE section that each
  hold an INCLUDE, the first run adds one SKIPREST block and the second run, on the
  file the first one wrote, adds another one before the same INCLUDE.
\<close>

theorem second_run_duplicates_skiprest:
  "snd (update_data_file
      (single_file ''CASE.DATA'' ''SOLUTION\<newline>INCLUDE\<newline> INIT.INC /\<newline>SCHEDULE\<newline>INCLUDE\<newline> SCHED.INC /\<newline>'')
      ''CASE'' ''0007'')
     = Inr [''SOLUTION\<newline>'', ''RESTART\<newline>'', '' CASE 0007 /\<newline>'', ''\<newline>'', ''--INCLUDE\<newline>'',
            ''-- INIT.INC /\<newline>'', ''SCHEDULE\<newline>'', ''SKIPREST\<newline>\<newline>'', ''INCLUDE\<newline>'', '' SCHED.INC /\<newline>''] \<and>
   snd (update_data_file
      (writelines ''CASE.DATA''
         [''SOLUTION\<newline>'', ''RESTART\<newline>'', '' CASE 0007 /\<newline>'', ''\<newline>'', ''--INCLUDE\<newline>'',
          ''-- INIT.INC /\<newline>'', ''SCHEDULE\<newline>'', ''SKIPREST\<newline>\<newline>'', ''INCLUDE\<newline>'', '' SCHED.INC /\<newline>'']
         (single_file ''CASE.DATA'' ''SOLUTION\<newline>INCLUDE\<newline> INIT.INC /\<newline>SCHEDULE\<newline>INCLUDE\<newline> SCHED.INC /\<newline>''))
      ''CASE'' ''0007'')
     = Inr [''SOLUTION\<newline>'', ''RESTART\<newline>'', '' CASE 0007 /\<newline>'', ''\<newline>'', ''--INCLUDE\<newline>'',
            ''-- INIT.INC /\<newline>'', ''SCHEDULE\<newline>'', ''SKIPREST\<newline>'', ''\<newline>'', ''SKIPREST\<newline>\<newline>'',
            ''INCLUDE\<newline>'', '' SCHED.INC /\<newline>''] \<and>
   concat [''SOLUTION\<newline>'', ''RESTART\<newline>'', '' CASE 0007 /\<newline>'', ''\<newline>'', ''--INCLUDE\<newline>'',
            ''-- INIT.INC /\<newline>'', ''SCHEDULE\<newline>'', ''SKIPREST\<newline>'', ''\<newline>'', ''SKIPREST\<newline>\<newline>'',
            ''INCLUDE\<newline>'', '' SCHED.INC /\<newline>'']
     \<noteq> concat [''SOLUTION\<newline>'', ''RESTART\<newline>'', '' CASE 0007 /\<newline>'', ''\<newline>'', ''--INCLUDE\<newline>'',
            ''-- INIT.INC /\<newline>'', ''SCHEDULE\<newline>'', ''SKIPREST\<newline>\<newline>'', ''INCLUDE\<newline>'', '' SCHED.INC /\<newline>'']"
  by (simp add: update_data_file_def open_text_def single_file_def writelines_def eval_defs loop.simps)

text \<open>
  C2, as stated, fails: a SOLUTION section with a commented INCLUDE before its INCLUDE
  block. The commented line sets \<open>found_commented_include\<close>, so the RESTART block is
  added before that commented line, and the INCLUDE line and the line after it are
  emitted unchanged: the rule of lines 120 to 128 takes the INCLUDE for already commented.
  Neither \<open>--INCLUDE\<close> nor the commented argument line is in the output.
\<close>

theorem commented_include_before_counterexample:
  "rewrite_lines ''CASE'' ''0007''
     [''SOLUTION\<newline>'', ''-- INCLUDE\<newline>'', ''--  OLD.INC /\<newline>'', ''INCLUDE\<newline>'', '' INIT.INC /\<newline>'']
   = [''SOLUTION\<newline>'', ''RESTART\<newline>'', '' CASE 0007 /\<newline>'', ''\<newline>'',
      ''-- INCLUDE\<newline>'', ''--  OLD.INC /\<newline>'', ''INCLUDE\<newline>'', '' INIT.INC /\<newline>''] \<and>
   ''--INCLUDE\<newline>'' \<notin> set (rewrite_lines ''CASE'' ''0007''
     [''SOLUTION\<newline>'', ''-- INCLUDE\<newline>'', ''--  OLD.INC /\<newline>'', ''INCLUDE\<newline>'', '' INIT.INC /\<newline>'']) \<and>
   ''-- INIT.INC /\<newline>'' \<notin> set (rewrite_lines ''CASE'' ''0007''
     [''SOLUTION\<newline>'', ''-- INCLUDE\<newline>'', ''--  OLD.INC /\<newline>'', ''INCLUDE\<newline>'', '' INIT.INC /\<newline>''])"
  by (simp add: eval_defs2)

text \<open>
  C2, amended. Fresh insertion. Let a deck consist of lines of which none begins with
  \<open>SOLUTION\<close>, \<open>SCHEDULE\<close> or \<open>RESTART\<close>, then a SOLUTION line, then lines that take no
  branch of the keyword chain (so no RESTART and no INCLUDE, commented or not), then an
  INCLUDE line and the line after it, then lines of which none begins with \<open>SOLUTION\<close>.
  Rewriting with identifier \<open>id\<close> emits, immediately before the INCLUDE line, the three
  lines \<open>RESTART\<close>, \<open>' {basename} {id} /'\<close> and a blank line; the INCLUDE line and the
  line after it are each emitted prefixed with \<open>--\<close>; every other line is emitted
  unchanged, in the original order, and the only lines added among those that follow are
  SKIPREST elements.
\<close>

theorem fresh_insertion:
  assumes "\<forall>x\<in>set pre. \<not> startswith x ''SOLUTION'' \<and> \<not> startswith x ''SCHEDULE'' \<and> \<not> startswith x ''RESTART''"
    and "startswith sol ''SOLUTION''"
    and "\<forall>x\<in>set mid. classify x = OTHER"
    and "startswith inc ''INCLUDE''"
    and "\<forall>x\<in>set post. \<not> startswith x ''SOLUTION''"
  shows "\<exists>post'. rewrite_lines b i (pre @ sol # mid @ inc # arg # post)
           = pre @ sol # mid
             @ [''RESTART\<newline>'', restart_line b i, ''\<newline>'', ''--'' @ inc, ''--'' @ arg] @ post' \<and>
           filter (\<lambda>x. x \<noteq> ''SKIPREST\<newline>\<newline>'') post' = filter (\<lambda>x. x \<noteq> ''SKIPREST\<newline>\<newline>'') post \<and>
           subseq post post'"
proof -
  let ?deck = "pre @ sol # mid @ inc # arg # post"
  have o: "outside (initial ?deck)" by (simp add: outside_def initial_def)
  obtain t1 where t1: "loop b i (initial ?deck) = loop b i t1" "outside t1" "new_data t1 = pre"
    "data_file t1 = sol # mid @ inc # arg # post"
    using run_outside [OF o _ assms(1), of "sol # mid @ inc # arg # post" b i]
    by (auto simp add: initial_def)
  let ?t2 = "loop_body b i sol (t1\<lparr>data_file := mid @ inc # arg # post\<rparr>)"
  have t2: "loop b i t1 = loop b i ?t2" "fresh ?t2" "new_data ?t2 = pre @ [sol]"
    "data_file ?t2 = mid @ inc # arg # post"
    using step_solution [of "t1\<lparr>data_file := mid @ inc # arg # post\<rparr>" sol b i] t1 assms(2)
    by (simp_all add: loop_Cons)
  obtain t3 where t3: "loop b i ?t2 = loop b i t3" "fresh t3" "new_data t3 = pre @ [sol] @ mid"
    "data_file t3 = inc # arg # post"
    using run_fresh [OF t2(2) t2(4) assms(3), of b i] t2(3) by auto
  let ?t4 = "loop_body b i inc (t3\<lparr>data_file := arg # post\<rparr>)"
  have t4: "loop b i t3 = loop b i ?t4" "settled ?t4"
    "new_data ?t4 = pre @ [sol] @ mid @ [''RESTART\<newline>'', restart_line b i, ''\<newline>'', ''--'' @ inc, ''--'' @ arg]"
    "data_file ?t4 = post"
    using step_include [of "t3\<lparr>data_file := arg # post\<rparr>" inc b i] t3 assms(4)
    by (simp_all add: loop_Cons)
  obtain post' where p: "new_data (loop b i ?t4) = new_data ?t4 @ post'"
    "filter (\<lambda>x. x \<noteq> ''SKIPREST\<newline>\<newline>'') post' = filter (\<lambda>x. x \<noteq> ''SKIPREST\<newline>\<newline>'') post"
    "subseq post post'"
    using run_settled [OF t4(2), of b i] assms(5) t4(4) by auto
  have "rewrite_lines b i ?deck = new_data (loop b i ?t4)"
    using t1(1) t2(1) t3(1) t4(1) by (simp add: rewrite_lines_def)
  then show ?thesis using p t4(3) by auto
qed

text \<open>
  C2, an instance: a header line, a SOLUTION section with a comment line and an INCLUDE
  block, SUMMARY, and a SCHEDULE section with an INCLUDE.
\<close>

theorem fresh_insertion_witness:
  "\<not> startswith ''RUNSPEC\<newline>'' ''SOLUTION'' \<and> \<not> startswith ''RUNSPEC\<newline>'' ''SCHEDULE'' \<and>
   \<not> startswith ''RUNSPEC\<newline>'' ''RESTART'' \<and>
   startswith ''SOLUTION\<newline>'' ''SOLUTION'' \<and>
   classify ''-- initial state\<newline>'' = OTHER \<and>
   startswith ''INCLUDE\<newline>'' ''INCLUDE'' \<and>
   \<not> startswith ''SUMMARY\<newline>'' ''SOLUTION'' \<and> \<not> startswith ''SCHEDULE\<newline>'' ''SOLUTION'' \<and>
   \<not> startswith '' SCHED.INC /\<newline>'' ''SOLUTION'' \<and>
   rewrite_lines ''CASE'' ''0007''
     ([''RUNSPEC\<newline>''] @ ''SOLUTION\<newline>'' # [''-- initial state\<newline>''] @ ''INCLUDE\<newline>'' # '' INIT.INC /\<newline>''
        # [''SUMMARY\<newline>'', ''SCHEDULE\<newline>'', ''INCLUDE\<newline>'', '' SCHED.INC /\<newline>''])
   = [''RUNSPEC\<newline>''] @ ''SOLUTION\<newline>'' # [''-- initial state\<newline>'']
     @ [''RESTART\<newline>'', '' CASE 0007 /\<newline>'', ''\<newline>'', ''--INCLUDE\<newline>'', ''-- INIT.INC /\<newline>'']
     @ [''SUMMARY\<newline>'', ''SCHEDULE\<newline>'', ''SKIPREST\<newline>\<newline>'', ''INCLUDE\<newline>'', '' SCHED.INC /\<newline>'']"
proof -
  have pre: "\<forall>x\<in>set [''RUNSPEC\<newline>'']. \<not> startswith x ''SOLUTION'' \<and> \<not> startswith x ''SCHEDULE''
      \<and> \<not> startswith x ''RESTART''"
    by (simp add: startswith_def)
  have sol: "startswith ''SOLUTION\<newline>'' ''SOLUTION''"
    by (simp add: startswith_def)
  have mid: "\<forall>x\<in>set [''-- initial state\<newline>'']. classify x = OTHER"
    by (simp add: classify_def startswith_def commented_include_def)
  have inc: "startswith ''INCLUDE\<newline>'' ''INCLUDE''"
    by (simp add: startswith_def)
  have post: "\<forall>x\<in>set [''SUMMARY\<newline>'', ''SCHEDULE\<newline>'', ''INCLUDE\<newline>'', '' SCHED.INC /\<newline>''].
      \<not> startswith x ''SOLUTION''"
    by (simp add: startswith_def)
  obtain post' where "rewrite_lines ''CASE'' ''0007''
     ([''RUNSPEC\<newline>''] @ ''SOLUTION\<newline>'' # [''-- initial state\<newline>''] @ ''INCLUDE\<newline>'' # '' INIT.INC /\<newline>''
        # [''SUMMARY\<newline>'', ''SCHEDULE\<newline>'', ''INCLUDE\<newline>'', '' SCHED.INC /\<newline>''])
     = [''RUNSPEC\<newline>''] @ ''SOLUTION\<newline>'' # [''-- initial state\<newline>'']
       @ [''RESTART\<newline>'', restart_line ''CASE'' ''0007'', ''\<newline>'', ''--'' @ ''INCLUDE\<newline>'',
          ''--'' @ '' INIT.INC /\<newline>''] @ post'"
    using fresh_insertion [OF pre sol mid inc post, of "''CASE''" "''0007''" "'' INIT.INC /\<newline>''"]
    by blast
  moreover have "rewrite_lines ''CASE'' ''0007''
     ([''RUNSPEC\<newline>''] @ ''SOLUTION\<newline>'' # [''-- initial state\<newline>''] @ ''INCLUDE\<newline>'' # '' INIT.INC /\<newline>''
        # [''SUMMARY\<newline>'', ''SCHEDULE\<newline>'', ''INCLUDE\<newline>'', '' SCHED.INC /\<newline>''])
   = [''RUNSPEC\<newline>''] @ ''SOLUTION\<newline>'' # [''-- initial state\<newline>'']
     @ [''RESTART\<newline>'', '' CASE 0007 /\<newline>'', ''\<newline>'', ''--INCLUDE\<newline>'', ''-- INIT.INC /\<newline>'']
     @ [''SUMMARY\<newline>'', ''SCHEDULE\<newline>'', ''SKIPREST\<newline>\<newline>'', ''INCLUDE\<newline>'', '' SCHED.INC /\<newline>'']"
    by (simp add: eval_defs2)
  ultimately show ?thesis
    using pre sol mid inc post by simp
qed




text \<open>
  C4. Resolver correctness. When the greatest, in lexicographic order, of the names
  that \<open>glob\<close> returns for the pattern \<open>{basename}.X[0-9][0-9][0-9][0-9]\<close> is
  \<open>{basename}.X\<close> followed by the four digits \<open>m\<close>, and the companion
  \<open>{basename}.S\<close> followed by \<open>m\<close> exists, \<open>determine_restart_id\<close> takes
  that name from the sorted list and returns the string \<open>m\<close>, leading zeros kept.
\<close>

theorem resolver_returns_greatest:
  assumes "b @ ''.X'' @ m \<in> set (glob w (x_pattern b))" and "four_digits m"
    and "\<forall>f\<in>set (glob w (x_pattern b)). f \<le> b @ ''.X'' @ m"
    and "files w (b @ ''.S'' @ m) \<noteq> None"
  shows "last (sort (glob w (x_pattern b))) = b @ ''.X'' @ m \<and>
         snd (determine_restart_id w b) = Inr m"
proof -
  let ?xs = "glob w (x_pattern b)"
  have ne: "?xs \<noteq> []" using assms(1) by auto
  then have s: "sort ?xs \<noteq> []" by (cases ?xs) (auto simp: insort_is_Cons)
  have "last (sort ?xs) \<in> set ?xs" "b @ ''.X'' @ m \<le> last (sort ?xs)"
    using last_sort_greatest [OF ne] assms(1) by blast+
  then have l: "last (sort ?xs) = b @ ''.X'' @ m"
    using assms(3) by (meson order_antisym)
  show ?thesis
    using s l assms(4) search_x_id_name [OF assms(2), of b]
    by (auto simp add: determine_restart_id_def Let_def)
qed

text \<open>
  C4, an instance: the identifiers 0000, 0012 and 0003, listed in this order, give 0012.
\<close>

theorem resolver_returns_greatest_witness:
  "glob (world_of [(''CASE.DATA'', ''SOLUTION\<newline>''), (''CASE.X0000'', []), (''CASE.X0012'', []),
                   (''CASE.S0012'', []), (''CASE.X0003'', [])]) (x_pattern ''CASE'')
     = [''CASE.X0000'', ''CASE.X0012'', ''CASE.X0003''] \<and>
   four_digits ''0012'' \<and>
   ''CASE.X0000'' \<le> ''CASE.X0012'' \<and> ''CASE.X0003'' \<le> ''CASE.X0012'' \<and>
   files (world_of [(''CASE.DATA'', ''SOLUTION\<newline>''), (''CASE.X0000'', []), (''CASE.X0012'', []),
                   (''CASE.S0012'', []), (''CASE.X0003'', [])]) ''CASE.S0012'' = Some [] \<and>
   snd (determine_restart_id
      (world_of [(''CASE.DATA'', ''SOLUTION\<newline>''), (''CASE.X0000'', []), (''CASE.X0012'', []),
                 (''CASE.S0012'', []), (''CASE.X0003'', [])]) ''CASE'') = Inr ''0012''"
proof -
  let ?w = "world_of [(''CASE.DATA'', ''SOLUTION\<newline>''), (''CASE.X0000'', []), (''CASE.X0012'', []),
                   (''CASE.S0012'', []), (''CASE.X0003'', [])]"
  have g: "glob ?w (x_pattern ''CASE'') = [''CASE.X0000'', ''CASE.X0012'', ''CASE.X0003'']"
    by (simp add: x_pattern_def world_of_def matches_digits_pattern_def is_digit_def)
  have d: "four_digits ''0012''"
    by (simp add: four_digits_def is_digit_def)
  have le: "''CASE.X0000'' \<le> ''CASE.X0012''" "''CASE.X0003'' \<le> ''CASE.X0012''"
    by code_simp+
  have c: "files ?w ''CASE.S0012'' = Some []"
    by (simp add: world_of_def)
  have m: "''CASE'' @ ''.X'' @ ''0012'' \<in> set (glob ?w (x_pattern ''CASE''))"
    by (simp only: g) simp
  have mx: "\<forall>f\<in>set (glob ?w (x_pattern ''CASE'')). f \<le> ''CASE'' @ ''.X'' @ ''0012''"
    using le by (simp only: g) simp
  have c': "files ?w (''CASE'' @ ''.S'' @ ''0012'') \<noteq> None"
    using c by simp
  have "snd (determine_restart_id ?w ''CASE'') = Inr ''0012''"
    using resolver_returns_greatest [OF m d mx c'] by blast
  then show ?thesis using g d le c by blast
qed

text \<open>
  C5, as stated, fails when the script is called with \<open>--restore\<close>: the deck is
  replaced by its backup (line 176) before \<open>determine_restart_id\<close> is called, so when
  no restart file is found the script stops with the deck already written.
\<close>

theorem restore_writes_deck_counterexample:
  "snd (determine_restart_id
      (world_of [(''CASE.DATA'', ''EDITED\<newline>''), (''CASE.DATA.BACKUP'', ''ORIGINAL\<newline>'')]) ''CASE'')
     = Inl (SystemExit 1) \<and>
   raised (main \<lparr>name = ''CASE'', backup = False, restore = True, verbose = False\<rparr>
      (world_of [(''CASE.DATA'', ''EDITED\<newline>''), (''CASE.DATA.BACKUP'', ''ORIGINAL\<newline>'')]))
     = Some (SystemExit 1) \<and>
   files (world_of [(''CASE.DATA'', ''EDITED\<newline>''), (''CASE.DATA.BACKUP'', ''ORIGINAL\<newline>'')]) ''CASE.DATA''
     = Some ''EDITED\<newline>'' \<and>
   files (final_world (main \<lparr>name = ''CASE'', backup = False, restore = True, verbose = False\<rparr>
      (world_of [(''CASE.DATA'', ''EDITED\<newline>''), (''CASE.DATA.BACKUP'', ''ORIGINAL\<newline>'')]))) ''CASE.DATA''
     = Some ''ORIGINAL\<newline>''"
proof -
  let ?a = "\<lparr>name = ''CASE'', backup = False, restore = True, verbose = False\<rparr>"
  let ?w = "world_of [(''CASE.DATA'', ''EDITED\<newline>''), (''CASE.DATA.BACKUP'', ''ORIGINAL\<newline>'')]"
  have b: "basename_of ?a = ''CASE''"
    by (simp add: basename_of_def endswith_def suffix_to_prefix)
  have "files ?w (basename_of ?a @ ''.DATA.BACKUP'') = Some ''ORIGINAL\<newline>''"
    by (simp add: b world_of_def)
  then obtain w1 where r: "restore_step ?a ?w = Inr w1"
    and f1: "files w1 = (files ?w)(''CASE.DATA'' \<mapsto> ''ORIGINAL\<newline>'')" and g1: "glob w1 = glob ?w"
    using restore_step_on [of ?a ?w "''ORIGINAL\<newline>''"] by (auto simp add: b)
  have g: "glob ?w (x_pattern ''CASE'') = []"
    by (simp add: x_pattern_def world_of_def matches_digits_pattern_def)
  have d0: "snd (determine_restart_id ?w ''CASE'') = Inl (SystemExit 1)"
    using g by (simp add: determine_restart_id_def)
  have d1: "snd (determine_restart_id w1 (basename_of ?a)) = Inl (SystemExit 1)"
    using g g1 by (simp add: determine_restart_id_def b)
  have m: "main ?a ?w = Inl (SystemExit 1, log_to (fst (determine_restart_id w1 (basename_of ?a))) w1)"
    using main_resolver_fails [OF r d1] .
  have o: "files ?w ''CASE.DATA'' = Some ''EDITED\<newline>''"
    by (simp add: world_of_def)
  show ?thesis
    using d0 m f1 o by (simp add: raised_def final_world_def log_to_def)
qed

text \<open>
  C5, amended. Let the script have passed its restore step (which copies the backup
  over the deck when \<open>--restore\<close> is given and does nothing otherwise), and let every
  name that \<open>glob\<close> returns for the pattern end with \<open>.X\<close> and four digits, as every
  match of the pattern does. Then \<open>determine_restart_id\<close> fails, with \<open>sys.exit(1)\<close>,
  if and only if no name matches or the companion \<open>{basename}.S{id}\<close> of the
  identifier taken from the greatest match does not exist, and it raises nothing else.
  When it fails the script stops with that exit and leaves every file as
  \<open>determine_restart_id\<close> found it: the deck is not read by the rewriter, nothing is
  moved and nothing is written. Without \<open>--restore\<close> these are the files the script
  started with.
\<close>

theorem fatal_error_conditions:
  assumes "restore_step a w = Inr w1"
    and "\<forall>f\<in>set (glob w1 (x_pattern (basename_of a))). ends_x_id f"
  shows "(snd (determine_restart_id w1 (basename_of a)) = Inl (SystemExit 1) \<longleftrightarrow>
            glob w1 (x_pattern (basename_of a)) = [] \<or>
            files w1 (basename_of a @ ''.S''
               @ drop (length (last (sort (glob w1 (x_pattern (basename_of a))))) - 4)
                   (last (sort (glob w1 (x_pattern (basename_of a)))))) = None) \<and>
         (\<forall>e. snd (determine_restart_id w1 (basename_of a)) = Inl e \<longrightarrow> e = SystemExit 1) \<and>
         (snd (determine_restart_id w1 (basename_of a)) = Inl (SystemExit 1) \<longrightarrow>
            raised (main a w) = Some (SystemExit 1) \<and>
            files (final_world (main a w)) = files w1 \<and>
            glob (final_world (main a w)) = glob w1) \<and>
         (\<not> restore a \<longrightarrow> w1 = w)"
proof -
  let ?r = "snd (determine_restart_id w1 (basename_of a))"
  note iff = resolver_fails_iff(1) [OF assms(2)]
  have only: "\<forall>e. ?r = Inl e \<longrightarrow> e = SystemExit 1"
    using resolver_fails_iff(2) [OF assms(2)] by (metis Inl_Inr_False sum.inject(1))
  have m: "?r = Inl (SystemExit 1) \<longrightarrow>
      raised (main a w) = Some (SystemExit 1) \<and>
      files (final_world (main a w)) = files w1 \<and> glob (final_world (main a w)) = glob w1"
    using main_resolver_fails [OF assms(1)] by (auto simp add: log_to_def raised_def final_world_def)
  have r: "\<not> restore a \<longrightarrow> w1 = w"
    using assms(1) by (auto simp add: restore_step_def)
  show ?thesis using iff only m r by blast
qed

text \<open>
  C5, an instance: a primary file \<open>CASE.X0005\<close> with no companion, backup requested.
\<close>

theorem fatal_error_conditions_witness:
  "restore_step \<lparr>name = ''CASE'', backup = True, restore = False, verbose = False\<rparr>
      (world_of [(''CASE.DATA'', ''SOLUTION\<newline>''), (''CASE.X0005'', [])])
     = Inr (world_of [(''CASE.DATA'', ''SOLUTION\<newline>''), (''CASE.X0005'', [])]) \<and>
   glob (world_of [(''CASE.DATA'', ''SOLUTION\<newline>''), (''CASE.X0005'', [])])
      (x_pattern (basename_of \<lparr>name = ''CASE'', backup = True, restore = False, verbose = False\<rparr>))
     = [''CASE.X0005''] \<and>
   ends_x_id ''CASE.X0005'' \<and>
   files (world_of [(''CASE.DATA'', ''SOLUTION\<newline>''), (''CASE.X0005'', [])]) ''CASE.S0005'' = None \<and>
   snd (determine_restart_id (world_of [(''CASE.DATA'', ''SOLUTION\<newline>''), (''CASE.X0005'', [])]) ''CASE'')
     = Inl (SystemExit 1) \<and>
   raised (main \<lparr>name = ''CASE'', backup = True, restore = False, verbose = False\<rparr>
      (world_of [(''CASE.DATA'', ''SOLUTION\<newline>''), (''CASE.X0005'', [])]))
     = Some (SystemExit 1) \<and>
   files (final_world (main \<lparr>name = ''CASE'', backup = True, restore = False, verbose = False\<rparr>
      (world_of [(''CASE.DATA'', ''SOLUTION\<newline>''), (''CASE.X0005'', [])])))
     = files (world_of [(''CASE.DATA'', ''SOLUTION\<newline>''), (''CASE.X0005'', [])])"
proof -
  let ?a = "\<lparr>name = ''CASE'', backup = True, restore = False, verbose = False\<rparr>"
  let ?w = "world_of [(''CASE.DATA'', ''SOLUTION\<newline>''), (''CASE.X0005'', [])]"
  have b: "basename_of ?a = ''CASE''"
    by (simp add: basename_of_def endswith_def suffix_to_prefix)
  have r: "restore_step ?a ?w = Inr ?w"
    by (simp add: restore_step_def)
  have g: "glob ?w (x_pattern (basename_of ?a)) = [''CASE.X0005'']"
    by (simp add: b x_pattern_def world_of_def matches_digits_pattern_def is_digit_def)
  have e: "ends_x_id ''CASE.X0005''"
    by (simp add: ends_x_id_def is_digit_def)
  have wf: "\<forall>f\<in>set (glob ?w (x_pattern (basename_of ?a))). ends_x_id f"
    using g e by simp
  have c: "files ?w ''CASE.S0005'' = None"
    by (simp add: world_of_def)
  note th = fatal_error_conditions [OF r wf]
  have f: "snd (determine_restart_id ?w ''CASE'') = Inl (SystemExit 1)"
    using th g c by (simp only: b) (simp add: c)
  have m: "raised (main ?a ?w) = Some (SystemExit 1) \<and> files (final_world (main ?a ?w)) = files ?w"
    using th f by (simp only: b) simp
  show ?thesis
    using r g e c f m by (simp only: b)
qed



text \<open>
  C7. Frame property, as stated for every input deck: every line that no rule consumes
  or modifies is in the output byte for byte. This fails for a deck whose lines end with
  a carriage return and a newline. The deck is opened in text mode (line 61), so every
  line arrives ending with a newline alone, and so it is returned. For the deck of the
  two lines \<open>RUNSPEC\<close> and \<open>TITLE\<close>, on which no rule fires, neither line of the
  file is in the output, and the output joined is not the text of the file.
\<close>

theorem crlf_deck_counterexample:
  "snd (update_data_file
      (single_file ''CASE.DATA'' (''RUNSPEC'' @ [CHR 0x0D, CHR ''\<newline>''] @ ''TITLE'' @ [CHR 0x0D, CHR ''\<newline>'']))
      ''CASE'' ''0007'')
     = Inr [''RUNSPEC\<newline>'', ''TITLE\<newline>''] \<and>
   ''RUNSPEC'' @ [CHR 0x0D, CHR ''\<newline>''] \<notin> set [''RUNSPEC\<newline>'', ''TITLE\<newline>''] \<and>
   ''TITLE'' @ [CHR 0x0D, CHR ''\<newline>''] \<notin> set [''RUNSPEC\<newline>'', ''TITLE\<newline>''] \<and>
   concat [''RUNSPEC\<newline>'', ''TITLE\<newline>'']
     \<noteq> ''RUNSPEC'' @ [CHR 0x0D, CHR ''\<newline>''] @ ''TITLE'' @ [CHR 0x0D, CHR ''\<newline>'']"
  by (simp add: update_data_file_def open_text_def single_file_def eval_defs loop.simps)

text \<open>
  C7, amended. Frame property, for the lines as reading in text mode gives them. For every
  deck that can be opened, \<open>update_data_file\<close> returns what the iterations of the loop
  emit, in their order, and the deck is, in its order, each line taken followed by what
  the iteration that takes it reads ahead. In every iteration, with the condition of each
  rule as the body tests it:
  \<^item> when neither the rule that updates a RESTART nor the rule that comments an INCLUDE
    fires, the line taken is emitted unchanged, once, as the last element, after nothing
    but a RESTART block (exactly when the rule that adds one fires) and a SKIPREST element
    (exactly when the rule that adds one fires), and nothing is read ahead;
  \<^item> when the rule that updates a RESTART fires, the line taken begins with \<open>RESTART\<close>,
    the rule that comments an INCLUDE does not fire, the line taken is emitted unchanged
    and after it the generated parameter line alone, and the next line of the deck (if
    there is one) is read ahead and not emitted;
  \<^item> when the rule that comments an INCLUDE fires, the line taken begins with \<open>INCLUDE\<close>,
    the rule that updates a RESTART does not fire, the line taken is emitted once,
    prefixed with \<open>--\<close>, after nothing but a RESTART block (exactly when that rule
    fires), then a SKIPREST element (exactly when that rule fires), then the next line of
    the deck (the empty string at the end of the deck) prefixed with \<open>--\<close>, and that
    next line is read ahead.

  So the lines taken in iterations where the rule that comments an INCLUDE does not fire
  are in the output unchanged and in their order. When the text of the file has no
  carriage return, the lines of the deck joined are the text of the file, character for
  character.
\<close>

theorem frame_property:
  assumes "files w (b @ ''.DATA'') = Some text" and "deck = text_lines (universal_newlines text)"
  shows "snd (update_data_file w b i) =
           Inr (concat (map (\<lambda>(l, s). emitted b i l s) (taken b i (initial deck)))) \<and>
         deck = concat (map (\<lambda>(l, s). l # read_ahead b i l s) (taken b i (initial deck))) \<and>
         (\<forall>(l, s) \<in> set (taken b i (initial deck)).
            (\<not> updates_restart b i l s \<and> \<not> comments_include b i l s \<longrightarrow>
               emitted b i l s =
                 (if inserts_restart l s then [''RESTART\<newline>'', restart_line b i, ''\<newline>''] else [])
                 @ (if inserts_skiprest b i l s then [''SKIPREST\<newline>\<newline>''] else []) @ [l] \<and>
               read_ahead b i l s = []) \<and>
            (updates_restart b i l s \<longrightarrow>
               startswith l ''RESTART'' \<and> \<not> comments_include b i l s \<and>
               emitted b i l s = [l, restart_line b i] \<and>
               read_ahead b i l s = take 1 (data_file s)) \<and>
            (comments_include b i l s \<longrightarrow>
               startswith l ''INCLUDE'' \<and> \<not> updates_restart b i l s \<and>
               emitted b i l s =
                 (if inserts_restart l s then [''RESTART\<newline>'', restart_line b i, ''\<newline>''] else [])
                 @ [''--'' @ l]
                 @ (if inserts_skiprest b i l s then [''SKIPREST\<newline>\<newline>''] else [])
                 @ [''--'' @ fst (readline (data_file s))] \<and>
               read_ahead b i l s = take 1 (data_file s))) \<and>
         subseq (map fst (filter (\<lambda>(l, s). \<not> comments_include b i l s) (taken b i (initial deck))))
                (concat (map (\<lambda>(l, s). emitted b i l s) (taken b i (initial deck)))) \<and>
         (CHR 0x0D \<notin> set text \<longrightarrow> concat deck = text)"
proof -
  have o: "open_text w (b @ ''.DATA'') = Inr deck"
    using assms by (simp add: open_text_def)
  have a1: "snd (update_data_file w b i) =
           Inr (concat (map (\<lambda>(l, s). emitted b i l s) (taken b i (initial deck))))"
    using loop_emitted [of b i "initial deck"]
    by (simp add: open_update [OF o] rewrite_lines_def initial_def)
  have a2: "deck = concat (map (\<lambda>(l, s). l # read_ahead b i l s) (taken b i (initial deck)))"
    using taken_read_ahead [of "initial deck" b i] by (simp add: initial_def)
  have a3: "\<forall>(l, s) \<in> set (taken b i (initial deck)).
            (\<not> updates_restart b i l s \<and> \<not> comments_include b i l s \<longrightarrow>
               emitted b i l s =
                 (if inserts_restart l s then [''RESTART\<newline>'', restart_line b i, ''\<newline>''] else [])
                 @ (if inserts_skiprest b i l s then [''SKIPREST\<newline>\<newline>''] else []) @ [l] \<and>
               read_ahead b i l s = []) \<and>
            (updates_restart b i l s \<longrightarrow>
               startswith l ''RESTART'' \<and> \<not> comments_include b i l s \<and>
               emitted b i l s = [l, restart_line b i] \<and>
               read_ahead b i l s = take 1 (data_file s)) \<and>
            (comments_include b i l s \<longrightarrow>
               startswith l ''INCLUDE'' \<and> \<not> updates_restart b i l s \<and>
               emitted b i l s =
                 (if inserts_restart l s then [''RESTART\<newline>'', restart_line b i, ''\<newline>''] else [])
                 @ [''--'' @ l]
                 @ (if inserts_skiprest b i l s then [''SKIPREST\<newline>\<newline>''] else [])
                 @ [''--'' @ fst (readline (data_file s))] \<and>
               read_ahead b i l s = take 1 (data_file s))"
  proof (intro ballI, clarify)
    fix l s assume "(l, s) \<in> set (taken b i (initial deck))"
    then have inv: "inv s" using taken_inv [OF inv_initial] by blast
    show "(\<not> updates_restart b i l s \<and> \<not> comments_include b i l s \<longrightarrow>
               emitted b i l s =
                 (if inserts_restart l s then [''RESTART\<newline>'', restart_line b i, ''\<newline>''] else [])
                 @ (if inserts_skiprest b i l s then [''SKIPREST\<newline>\<newline>''] else []) @ [l] \<and>
               read_ahead b i l s = []) \<and>
            (updates_restart b i l s \<longrightarrow>
               startswith l ''RESTART'' \<and> \<not> comments_include b i l s \<and>
               emitted b i l s = [l, restart_line b i] \<and>
               read_ahead b i l s = take 1 (data_file s)) \<and>
            (comments_include b i l s \<longrightarrow>
               startswith l ''INCLUDE'' \<and> \<not> updates_restart b i l s \<and>
               emitted b i l s =
                 (if inserts_restart l s then [''RESTART\<newline>'', restart_line b i, ''\<newline>''] else [])
                 @ [''--'' @ l]
                 @ (if inserts_skiprest b i l s then [''SKIPREST\<newline>\<newline>''] else [])
                 @ [''--'' @ fst (readline (data_file s))] \<and>
               read_ahead b i l s = take 1 (data_file s))"
    proof -
      have u1: "\<not> updates_restart b i l s \<and> \<not> comments_include b i l s \<longrightarrow>
               emitted b i l s =
                 (if inserts_restart l s then [''RESTART\<newline>'', restart_line b i, ''\<newline>''] else [])
                 @ (if inserts_skiprest b i l s then [''SKIPREST\<newline>\<newline>''] else []) @ [l] \<and>
               read_ahead b i l s = []"
        using iteration_untouched [OF inv, of b i l] by simp
      have u2: "updates_restart b i l s \<longrightarrow>
               startswith l ''RESTART'' \<and> \<not> comments_include b i l s \<and>
               emitted b i l s = [l, restart_line b i] \<and>
               read_ahead b i l s = take 1 (data_file s)"
        using iteration_update [OF inv, of b i l] by simp
      have u3: "comments_include b i l s \<longrightarrow>
               startswith l ''INCLUDE'' \<and> \<not> updates_restart b i l s \<and>
               emitted b i l s =
                 (if inserts_restart l s then [''RESTART\<newline>'', restart_line b i, ''\<newline>''] else [])
                 @ [''--'' @ l]
                 @ (if inserts_skiprest b i l s then [''SKIPREST\<newline>\<newline>''] else [])
                 @ [''--'' @ fst (readline (data_file s))] \<and>
               read_ahead b i l s = take 1 (data_file s)"
        using iteration_comment [OF inv, of b i l] by simp
      show ?thesis
        by (intro conjI) (fact u1 u2 u3)+
    qed
  qed
  have a4: "subseq (map fst (filter (\<lambda>(l, s). \<not> comments_include b i l s) (taken b i (initial deck))))
                (concat (map (\<lambda>(l, s). emitted b i l s) (taken b i (initial deck))))"
    using unmodified_subseq [OF inv_initial] .
  have a5: "CHR 0x0D \<notin> set text \<longrightarrow> concat deck = text"
    using assms(2) by (simp add: concat_text_lines universal_newlines_id)
  show ?thesis
    by (intro conjI) (fact a1 a2 a3 a4 a5)+
qed

text \<open>
  C7, an instance: a deck with an INCLUDE in its SOLUTION section and one in its SCHEDULE
  section, and no carriage return. The third iteration takes the first \<open>INCLUDE\<close> line;
  the rule that comments an INCLUDE fires in it, after the rule that adds a RESTART block.
\<close>

theorem frame_property_witness:
  "files (single_file ''CASE.DATA''
      ''RUNSPEC\<newline>SOLUTION\<newline>INCLUDE\<newline> INIT.INC /\<newline>SUMMARY\<newline>SCHEDULE\<newline>INCLUDE\<newline> SCHED.INC /\<newline>'')
     ''CASE.DATA''
     = Some ''RUNSPEC\<newline>SOLUTION\<newline>INCLUDE\<newline> INIT.INC /\<newline>SUMMARY\<newline>SCHEDULE\<newline>INCLUDE\<newline> SCHED.INC /\<newline>'' \<and>
   text_lines (universal_newlines
      ''RUNSPEC\<newline>SOLUTION\<newline>INCLUDE\<newline> INIT.INC /\<newline>SUMMARY\<newline>SCHEDULE\<newline>INCLUDE\<newline> SCHED.INC /\<newline>'')
     = [''RUNSPEC\<newline>'', ''SOLUTION\<newline>'', ''INCLUDE\<newline>'', '' INIT.INC /\<newline>'', ''SUMMARY\<newline>'',
        ''SCHEDULE\<newline>'', ''INCLUDE\<newline>'', '' SCHED.INC /\<newline>''] \<and>
   snd (update_data_file (single_file ''CASE.DATA''
      ''RUNSPEC\<newline>SOLUTION\<newline>INCLUDE\<newline> INIT.INC /\<newline>SUMMARY\<newline>SCHEDULE\<newline>INCLUDE\<newline> SCHED.INC /\<newline>'')
      ''CASE'' ''0007'')
     = Inr [''RUNSPEC\<newline>'', ''SOLUTION\<newline>'', ''RESTART\<newline>'', '' CASE 0007 /\<newline>'', ''\<newline>'',
            ''--INCLUDE\<newline>'', ''-- INIT.INC /\<newline>'', ''SUMMARY\<newline>'', ''SCHEDULE\<newline>'', ''SKIPREST\<newline>\<newline>'',
            ''INCLUDE\<newline>'', '' SCHED.INC /\<newline>''] \<and>
   concat (map (\<lambda>(l, s). l # read_ahead ''CASE'' ''0007'' l s)
     (taken ''CASE'' ''0007'' (initial [''RUNSPEC\<newline>'', ''SOLUTION\<newline>'', ''INCLUDE\<newline>'', '' INIT.INC /\<newline>'',
        ''SUMMARY\<newline>'', ''SCHEDULE\<newline>'', ''INCLUDE\<newline>'', '' SCHED.INC /\<newline>''])))
     = [''RUNSPEC\<newline>'', ''SOLUTION\<newline>'', ''INCLUDE\<newline>'', '' INIT.INC /\<newline>'', ''SUMMARY\<newline>'',
        ''SCHEDULE\<newline>'', ''INCLUDE\<newline>'', '' SCHED.INC /\<newline>''] \<and>
   comments_include ''CASE'' ''0007''
     (fst (taken ''CASE'' ''0007'' (initial [''RUNSPEC\<newline>'', ''SOLUTION\<newline>'', ''INCLUDE\<newline>'', '' INIT.INC /\<newline>'',
        ''SUMMARY\<newline>'', ''SCHEDULE\<newline>'', ''INCLUDE\<newline>'', '' SCHED.INC /\<newline>'']) ! 2))
     (snd (taken ''CASE'' ''0007'' (initial [''RUNSPEC\<newline>'', ''SOLUTION\<newline>'', ''INCLUDE\<newline>'', '' INIT.INC /\<newline>'',
        ''SUMMARY\<newline>'', ''SCHEDULE\<newline>'', ''INCLUDE\<newline>'', '' SCHED.INC /\<newline>'']) ! 2)) \<and>
   emitted ''CASE'' ''0007''
     (fst (taken ''CASE'' ''0007'' (initial [''RUNSPEC\<newline>'', ''SOLUTION\<newline>'', ''INCLUDE\<newline>'', '' INIT.INC /\<newline>'',
        ''SUMMARY\<newline>'', ''SCHEDULE\<newline>'', ''INCLUDE\<newline>'', '' SCHED.INC /\<newline>'']) ! 2))
     (snd (taken ''CASE'' ''0007'' (initial [''RUNSPEC\<newline>'', ''SOLUTION\<newline>'', ''INCLUDE\<newline>'', '' INIT.INC /\<newline>'',
        ''SUMMARY\<newline>'', ''SCHEDULE\<newline>'', ''INCLUDE\<newline>'', '' SCHED.INC /\<newline>'']) ! 2))
     = [''RESTART\<newline>'', '' CASE 0007 /\<newline>'', ''\<newline>'', ''--INCLUDE\<newline>'', ''-- INIT.INC /\<newline>''] \<and>
   read_ahead ''CASE'' ''0007''
     (fst (taken ''CASE'' ''0007'' (initial [''RUNSPEC\<newline>'', ''SOLUTION\<newline>'', ''INCLUDE\<newline>'', '' INIT.INC /\<newline>'',
        ''SUMMARY\<newline>'', ''SCHEDULE\<newline>'', ''INCLUDE\<newline>'', '' SCHED.INC /\<newline>'']) ! 2))
     (snd (taken ''CASE'' ''0007'' (initial [''RUNSPEC\<newline>'', ''SOLUTION\<newline>'', ''INCLUDE\<newline>'', '' INIT.INC /\<newline>'',
        ''SUMMARY\<newline>'', ''SCHEDULE\<newline>'', ''INCLUDE\<newline>'', '' SCHED.INC /\<newline>'']) ! 2))
     = ['' INIT.INC /\<newline>''] \<and>
   subseq [''RUNSPEC\<newline>'', ''SOLUTION\<newline>'', ''SUMMARY\<newline>'', ''SCHEDULE\<newline>'', ''INCLUDE\<newline>'', '' SCHED.INC /\<newline>'']
     [''RUNSPEC\<newline>'', ''SOLUTION\<newline>'', ''RESTART\<newline>'', '' CASE 0007 /\<newline>'', ''\<newline>'',
      ''--INCLUDE\<newline>'', ''-- INIT.INC /\<newline>'', ''SUMMARY\<newline>'', ''SCHEDULE\<newline>'', ''SKIPREST\<newline>\<newline>'',
      ''INCLUDE\<newline>'', '' SCHED.INC /\<newline>''] \<and>
   concat [''RUNSPEC\<newline>'', ''SOLUTION\<newline>'', ''INCLUDE\<newline>'', '' INIT.INC /\<newline>'', ''SUMMARY\<newline>'',
        ''SCHEDULE\<newline>'', ''INCLUDE\<newline>'', '' SCHED.INC /\<newline>'']
     = ''RUNSPEC\<newline>SOLUTION\<newline>INCLUDE\<newline> INIT.INC /\<newline>SUMMARY\<newline>SCHEDULE\<newline>INCLUDE\<newline> SCHED.INC /\<newline>''"
proof -
  let ?T = "''RUNSPEC\<newline>SOLUTION\<newline>INCLUDE\<newline> INIT.INC /\<newline>SUMMARY\<newline>SCHEDULE\<newline>INCLUDE\<newline> SCHED.INC /\<newline>''"
  let ?D = "[''RUNSPEC\<newline>'', ''SOLUTION\<newline>'', ''INCLUDE\<newline>'', '' INIT.INC /\<newline>'', ''SUMMARY\<newline>'',
        ''SCHEDULE\<newline>'', ''INCLUDE\<newline>'', '' SCHED.INC /\<newline>'']"
  let ?W = "single_file ''CASE.DATA'' ?T"
  let ?tk = "taken ''CASE'' ''0007'' (initial ?D)"
  let ?l = "fst (?tk ! 2)"
  let ?s = "snd (?tk ! 2)"
  have h1: "files ?W (''CASE'' @ ''.DATA'') = Some ?T"
    by (simp add: single_file_def)
  have h2: "?D = text_lines (universal_newlines ?T)"
    by simp
  note f = frame_property [OF h1 h2, of "''0007''"]
  have a1: "snd (update_data_file ?W ''CASE'' ''0007'')
      = Inr (concat (map (\<lambda>(l, s). emitted ''CASE'' ''0007'' l s) ?tk))"
    using f by (rule conjunct1)
  have a2: "?D = concat (map (\<lambda>(l, s). l # read_ahead ''CASE'' ''0007'' l s) ?tk)"
    using f [THEN conjunct2] by (rule conjunct1)
  note a3 = f [THEN conjunct2, THEN conjunct2, THEN conjunct1]
  note a4 = f [THEN conjunct2, THEN conjunct2, THEN conjunct2, THEN conjunct1]
  note a5 = f [THEN conjunct2, THEN conjunct2, THEN conjunct2, THEN conjunct2]
  have e1: "concat (map (\<lambda>(l, s). emitted ''CASE'' ''0007'' l s) ?tk)
      = [''RUNSPEC\<newline>'', ''SOLUTION\<newline>'', ''RESTART\<newline>'', '' CASE 0007 /\<newline>'', ''\<newline>'',
            ''--INCLUDE\<newline>'', ''-- INIT.INC /\<newline>'', ''SUMMARY\<newline>'', ''SCHEDULE\<newline>'', ''SKIPREST\<newline>\<newline>'',
            ''INCLUDE\<newline>'', '' SCHED.INC /\<newline>'']"
    by code_simp
  have e2: "map fst (filter (\<lambda>(l, s). \<not> comments_include ''CASE'' ''0007'' l s) ?tk)
      = [''RUNSPEC\<newline>'', ''SOLUTION\<newline>'', ''SUMMARY\<newline>'', ''SCHEDULE\<newline>'', ''INCLUDE\<newline>'', '' SCHED.INC /\<newline>'']"
    by code_simp
  have len: "2 < length ?tk"
    by code_simp
  have mem: "?tk ! 2 \<in> set ?tk"
    using len by (rule nth_mem)
  have g: "comments_include ''CASE'' ''0007'' ?l ?s"
    by code_simp
  have e3: "inserts_restart ?l ?s" "\<not> inserts_skiprest ''CASE'' ''0007'' ?l ?s"
    "?l = ''INCLUDE\<newline>''" "fst (readline (data_file ?s)) = '' INIT.INC /\<newline>''"
    "take 1 (data_file ?s) = ['' INIT.INC /\<newline>'']" "restart_line ''CASE'' ''0007'' = '' CASE 0007 /\<newline>''"
    by code_simp+
  have "case ?tk ! 2 of (l, s) \<Rightarrow>
            (\<not> updates_restart ''CASE'' ''0007'' l s \<and> \<not> comments_include ''CASE'' ''0007'' l s \<longrightarrow>
               emitted ''CASE'' ''0007'' l s =
                 (if inserts_restart l s then [''RESTART\<newline>'', restart_line ''CASE'' ''0007'', ''\<newline>''] else [])
                 @ (if inserts_skiprest ''CASE'' ''0007'' l s then [''SKIPREST\<newline>\<newline>''] else []) @ [l] \<and>
               read_ahead ''CASE'' ''0007'' l s = []) \<and>
            (updates_restart ''CASE'' ''0007'' l s \<longrightarrow>
               startswith l ''RESTART'' \<and> \<not> comments_include ''CASE'' ''0007'' l s \<and>
               emitted ''CASE'' ''0007'' l s = [l, restart_line ''CASE'' ''0007''] \<and>
               read_ahead ''CASE'' ''0007'' l s = take 1 (data_file s)) \<and>
            (comments_include ''CASE'' ''0007'' l s \<longrightarrow>
               startswith l ''INCLUDE'' \<and> \<not> updates_restart ''CASE'' ''0007'' l s \<and>
               emitted ''CASE'' ''0007'' l s =
                 (if inserts_restart l s then [''RESTART\<newline>'', restart_line ''CASE'' ''0007'', ''\<newline>''] else [])
                 @ [''--'' @ l]
                 @ (if inserts_skiprest ''CASE'' ''0007'' l s then [''SKIPREST\<newline>\<newline>''] else [])
                 @ [''--'' @ fst (readline (data_file s))] \<and>
               read_ahead ''CASE'' ''0007'' l s = take 1 (data_file s))"
    using a3 mem by (rule bspec)
  then have c: "emitted ''CASE'' ''0007'' ?l ?s =
                 (if inserts_restart ?l ?s then [''RESTART\<newline>'', restart_line ''CASE'' ''0007'', ''\<newline>''] else [])
                 @ [''--'' @ ?l]
                 @ (if inserts_skiprest ''CASE'' ''0007'' ?l ?s then [''SKIPREST\<newline>\<newline>''] else [])
                 @ [''--'' @ fst (readline (data_file ?s))] \<and>
               read_ahead ''CASE'' ''0007'' ?l ?s = take 1 (data_file ?s)"
    using g by (simp add: case_prod_beta)
  have c1: "emitted ''CASE'' ''0007'' ?l ?s
      = [''RESTART\<newline>'', '' CASE 0007 /\<newline>'', ''\<newline>'', ''--INCLUDE\<newline>'', ''-- INIT.INC /\<newline>'']"
    using c e3 by simp
  have c2: "read_ahead ''CASE'' ''0007'' ?l ?s = ['' INIT.INC /\<newline>'']"
    using c e3 by simp
  have c4: "subseq [''RUNSPEC\<newline>'', ''SOLUTION\<newline>'', ''SUMMARY\<newline>'', ''SCHEDULE\<newline>'', ''INCLUDE\<newline>'', '' SCHED.INC /\<newline>'']
     [''RUNSPEC\<newline>'', ''SOLUTION\<newline>'', ''RESTART\<newline>'', '' CASE 0007 /\<newline>'', ''\<newline>'',
      ''--INCLUDE\<newline>'', ''-- INIT.INC /\<newline>'', ''SUMMARY\<newline>'', ''SCHEDULE\<newline>'', ''SKIPREST\<newline>\<newline>'',
      ''INCLUDE\<newline>'', '' SCHED.INC /\<newline>'']"
    using a4 by (simp only: e1 e2)
  have c5: "concat ?D = ?T"
    using a5 by simp
  have c0: "snd (update_data_file ?W ''CASE'' ''0007'')
     = Inr [''RUNSPEC\<newline>'', ''SOLUTION\<newline>'', ''RESTART\<newline>'', '' CASE 0007 /\<newline>'', ''\<newline>'',
            ''--INCLUDE\<newline>'', ''-- INIT.INC /\<newline>'', ''SUMMARY\<newline>'', ''SCHEDULE\<newline>'', ''SKIPREST\<newline>\<newline>'',
            ''INCLUDE\<newline>'', '' SCHED.INC /\<newline>'']"
    using a1 by (simp only: e1)
  have h1': "files ?W ''CASE.DATA'' = Some ?T"
    by (simp add: single_file_def)
  show ?thesis
    by (intro conjI) (fact h1' h2 [symmetric] c0 a2 [symmetric] g c1 c2 c4 c5)+
qed

text \<open>
  C8. No SOLUTION section. For a deck none of whose lines begins with \<open>SOLUTION\<close>,
  \<open>update_data_file\<close> returns its list of lines, the rule that adds a RESTART block never
  fires, and the lines of the output that begin with \<open>RESTART\<close> are lines of the deck
  that begin with \<open>RESTART\<close>, in their order.
\<close>

theorem no_solution_no_restart:
  assumes "open_text w (b @ ''.DATA'') = Inr deck"
    and "\<forall>l\<in>set deck. \<not> startswith l ''SOLUTION''"
  shows "snd (update_data_file w b i) = Inr (rewrite_lines b i deck) \<and>
         added_restart \<notin> set (fst (update_data_file w b i)) \<and>
         subseq (filter (\<lambda>x. startswith x ''RESTART'') (rewrite_lines b i deck))
                (filter (\<lambda>x. startswith x ''RESTART'') deck)"
  using loop_outside_solution [of "initial deck" b i] assms(2)
  by (auto simp add: open_update [OF assms(1)] rewrite_lines_def rewrite_log_def initial_def)

text \<open>
  C8, an instance: a deck with a RESTART before a SCHEDULE section and no SOLUTION.
\<close>

theorem no_solution_no_restart_witness:
  "open_text (single_file ''CASE.DATA'' ''RUNSPEC\<newline>RESTART\<newline> OLD 3 /\<newline>SCHEDULE\<newline>INCLUDE\<newline> S.INC /\<newline>'')
      (''CASE'' @ ''.DATA'')
     = Inr [''RUNSPEC\<newline>'', ''RESTART\<newline>'', '' OLD 3 /\<newline>'', ''SCHEDULE\<newline>'', ''INCLUDE\<newline>'', '' S.INC /\<newline>''] \<and>
   snd (update_data_file
      (single_file ''CASE.DATA'' ''RUNSPEC\<newline>RESTART\<newline> OLD 3 /\<newline>SCHEDULE\<newline>INCLUDE\<newline> S.INC /\<newline>'')
      ''CASE'' ''0007'')
     = Inr [''RUNSPEC\<newline>'', ''RESTART\<newline>'', '' CASE 0007 /\<newline>'', ''SCHEDULE\<newline>'', ''SKIPREST\<newline>\<newline>'',
            ''INCLUDE\<newline>'', '' S.INC /\<newline>''] \<and>
   added_restart \<notin> set (fst (update_data_file
      (single_file ''CASE.DATA'' ''RUNSPEC\<newline>RESTART\<newline> OLD 3 /\<newline>SCHEDULE\<newline>INCLUDE\<newline> S.INC /\<newline>'')
      ''CASE'' ''0007''))"
proof -
  let ?w = "single_file ''CASE.DATA'' ''RUNSPEC\<newline>RESTART\<newline> OLD 3 /\<newline>SCHEDULE\<newline>INCLUDE\<newline> S.INC /\<newline>''"
  let ?deck = "[''RUNSPEC\<newline>'', ''RESTART\<newline>'', '' OLD 3 /\<newline>'', ''SCHEDULE\<newline>'', ''INCLUDE\<newline>'', '' S.INC /\<newline>'']"
  have o: "open_text ?w (''CASE'' @ ''.DATA'') = Inr ?deck"
    by (simp add: open_text_def single_file_def)
  have n: "\<forall>l\<in>set ?deck. \<not> startswith l ''SOLUTION''"
    by (simp add: startswith_def)
  have r: "rewrite_lines ''CASE'' ''0007'' ?deck
      = [''RUNSPEC\<newline>'', ''RESTART\<newline>'', '' CASE 0007 /\<newline>'', ''SCHEDULE\<newline>'', ''SKIPREST\<newline>\<newline>'',
            ''INCLUDE\<newline>'', '' S.INC /\<newline>'']"
    by (simp add: eval_defs2)
  show ?thesis
    using no_solution_no_restart [OF o n, of "''0007''"] o r by simp
qed






end
